theory Spec2Isabelle
  imports Main
begin

section \<open>JavaScript values used by the server handler\<close>

text \<open>
  The server handler (the module exporting \<open>handler\<close>) is embedded function by function.
  Strings are lists of 8-bit code units; a value that may be \<open>undefined\<close> (a missing
  body field, a cell beyond the end of a row) is an \<open>option\<close>. Numbers that the handler
  treats as integers are \<open>int\<close>; \<open>NaN\<close> is \<open>None\<close> of an \<open>int option\<close>.
\<close>

subsection \<open>Strings\<close>

definition is_space :: "char \<Rightarrow> bool" where
  \<comment> \<open>the regular expression class \<open>\s\<close> and the characters removed by \<open>trim\<close>\<close>
  "is_space c = ((of_char c :: nat) \<in> {9, 10, 11, 12, 13, 32, 160})"

definition is_digit :: "char \<Rightarrow> bool" where
  "is_digit c = (48 \<le> (of_char c :: nat) \<and> (of_char c :: nat) \<le> 57)"

definition trim :: "string \<Rightarrow> string" where
  "trim s = rev (dropWhile is_space (rev (dropWhile is_space s)))"

definition toLowerCase :: "string \<Rightarrow> string" where
  "toLowerCase s =
     map (\<lambda>c. let n = (of_char c :: nat)
              in if (65 \<le> n \<and> n \<le> 90) \<or> (192 \<le> n \<and> n \<le> 222 \<and> n \<noteq> 215)
                 then char_of (n + 32) else c) s"

fun startsWith :: "string \<Rightarrow> string \<Rightarrow> bool" where
  "startsWith s [] = True"
| "startsWith [] (p # ps) = False"
| "startsWith (c # cs) (p # ps) = (c = p \<and> startsWith cs ps)"

fun join :: "string \<Rightarrow> string list \<Rightarrow> string" where
  "join sep [] = []"
| "join sep [x] = x"
| "join sep (x # y # ys) = x @ sep @ join sep (y # ys)"

definition truthy :: "string option \<Rightarrow> bool" where
  \<comment> \<open>a string-or-undefined value used as a condition: \<open>undefined\<close> and \<open>""\<close> are falsy\<close>
  "truthy v = (case v of None \<Rightarrow> False | Some s \<Rightarrow> s \<noteq> [])"

definition String_of :: "string option \<Rightarrow> string" where
  \<comment> \<open>\<open>String(c)\<close> and template interpolation of a string-or-undefined value\<close>
  "String_of v = (case v of None \<Rightarrow> ''undefined'' | Some s \<Rightarrow> s)"

subsection \<open>Numbers: \<open>String(n)\<close> and \<open>parseInt\<close>\<close>

definition digit_char :: "nat \<Rightarrow> char" where
  "digit_char d = char_of (48 + d)"

fun show_nat :: "nat \<Rightarrow> string" where
  "show_nat n = (if n < 10 then [digit_char n] else show_nat (n div 10) @ [digit_char (n mod 10)])"

declare show_nat.simps [simp del]

definition String_int :: "int \<Rightarrow> string" where
  \<comment> \<open>\<open>String(n)\<close> of an integer number (below \<open>10^21\<close> in magnitude, where JavaScript
      prints plain decimal digits)\<close>
  "String_int n = (if n < 0 then CHR ''-'' # show_nat (nat (- n)) else show_nat (nat n))"

definition digit_val :: "char \<Rightarrow> nat option" where
  \<comment> \<open>the value of a character as a digit of \<open>parseInt\<close>, up to radix 16\<close>
  "digit_val c =
     (let n = (of_char c :: nat) in
      if 48 \<le> n \<and> n \<le> 57 then Some (n - 48)
      else if 97 \<le> n \<and> n \<le> 102 then Some (n - 87)
      else if 65 \<le> n \<and> n \<le> 70 then Some (n - 55)
      else None)"

definition is_radix_digit :: "nat \<Rightarrow> char \<Rightarrow> bool" where
  "is_radix_digit radix c = (case digit_val c of None \<Rightarrow> False | Some d \<Rightarrow> d < radix)"

definition digits_value :: "nat \<Rightarrow> string \<Rightarrow> nat" where
  "digits_value radix ds =
     foldl (\<lambda>acc c. acc * radix + (case digit_val c of None \<Rightarrow> 0 | Some d \<Rightarrow> d)) 0 ds"

definition parse_sign :: "string \<Rightarrow> int \<times> string" where
  "parse_sign s =
     (case s of
        c # r \<Rightarrow> if c = CHR ''-'' then (- 1, r) else if c = CHR ''+'' then (1, r) else (1, s)
      | [] \<Rightarrow> (1, s))"

definition parse_radix :: "string \<Rightarrow> nat \<times> string" where
  "parse_radix s =
     (if startsWith s ''0x'' \<or> startsWith s ''0X'' then (16, drop 2 s) else (10, s))"

definition parseInt_str :: "string \<Rightarrow> int option" where
  \<comment> \<open>\<open>parseInt(s)\<close> with no radix argument: leading white space, a sign, an optional
      \<open>0x\<close> prefix, then the longest run of digits; \<open>NaN\<close> when that run is empty\<close>
  "parseInt_str s =
     (let (sign, s2) = parse_sign (dropWhile is_space s);
          (radix, s3) = parse_radix s2;
          ds = takeWhile (is_radix_digit radix) s3
      in if ds = [] then None else Some (sign * int (digits_value radix ds)))"

definition parseInt :: "string option \<Rightarrow> int option" where
  \<comment> \<open>\<open>parseInt(undefined)\<close> reads the string \<open>"undefined"\<close>, which has no digits\<close>
  "parseInt v = parseInt_str (String_of v)"

definition or_zero :: "int option \<Rightarrow> int" where
  \<comment> \<open>\<open>x || 0\<close> for a number \<open>x\<close>: \<open>NaN\<close> and \<open>0\<close> give \<open>0\<close>\<close>
  "or_zero v = (case v of None \<Rightarrow> 0 | Some n \<Rightarrow> n)"


section \<open>Configuration\<close>

definition MAX_SLOTS_PER_BOOKING :: nat where "MAX_SLOTS_PER_BOOKING = 10"
definition MAX_NAME_LENGTH :: nat where "MAX_NAME_LENGTH = 100"
definition MAX_EMAIL_LENGTH :: nat where "MAX_EMAIL_LENGTH = 254"
definition MAX_PHONE_LENGTH :: nat where "MAX_PHONE_LENGTH = 20"
definition MAX_NOTES_LENGTH :: nat where "MAX_NOTES_LENGTH = 500"
definition MAX_CATEGORY_LENGTH :: nat where "MAX_CATEGORY_LENGTH = 20"
definition RATE_LIMIT_WINDOW :: int where "RATE_LIMIT_WINDOW = 60000"
definition RATE_LIMIT_MAX_REQUESTS :: nat where "RATE_LIMIT_MAX_REQUESTS = 50"
definition CACHE_TTL :: int where "CACHE_TTL = 30000"
definition MAX_CONCURRENT_BOOKINGS :: nat where "MAX_CONCURRENT_BOOKINGS = 3"

text \<open>Column indices of the two sheets (\<open>SHEETS.SLOTS.COLS\<close>, \<open>SHEETS.SIGNUPS.COLS\<close>).\<close>

definition SLOTS_DATE :: nat where "SLOTS_DATE = 0"
definition SLOTS_LABEL :: nat where "SLOTS_LABEL = 1"
definition SLOTS_CAPACITY :: nat where "SLOTS_CAPACITY = 2"
definition SLOTS_TAKEN :: nat where "SLOTS_TAKEN = 3"

definition SIGNUPS_TIMESTAMP :: nat where "SIGNUPS_TIMESTAMP = 0"
definition SIGNUPS_DATE :: nat where "SIGNUPS_DATE = 1"
definition SIGNUPS_SLOT_LABEL :: nat where "SIGNUPS_SLOT_LABEL = 2"
definition SIGNUPS_NAME :: nat where "SIGNUPS_NAME = 3"
definition SIGNUPS_EMAIL :: nat where "SIGNUPS_EMAIL = 4"
definition SIGNUPS_PHONE :: nat where "SIGNUPS_PHONE = 5"
definition SIGNUPS_CATEGORY :: nat where "SIGNUPS_CATEGORY = 6"
definition SIGNUPS_NOTES :: nat where "SIGNUPS_NOTES = 7"
definition SIGNUPS_SLOT_ROW_ID :: nat where "SIGNUPS_SLOT_ROW_ID = 8"
definition SIGNUPS_STATUS :: nat where "SIGNUPS_STATUS = 9"

section \<open>The spreadsheet store\<close>

text \<open>
  The spreadsheet service is an external collaborator; the handler reaches it through
  \<open>values.get\<close>, \<open>values.batchGet\<close> and \<open>batchUpdate\<close>. It is modelled as two sheets, each
  a list of rows (row 1 first), each row a list of cell texts. A read returns the cells of
  the requested columns with the empty cells at the end of a row left out, and leaves out
  the empty rows at the end of the range, as the service does; a read of nothing has no
  \<open>values\<close> (the empty list here). A number written to a cell reads back as its decimal
  digits. All directives of one \<open>batchUpdate\<close> are applied together or not at all. The
  sheet ids \<open>SIGNUPS_GID\<close> and \<open>SLOTS_GID\<close> of the environment are taken to name the sheets
  called \<open>Signups\<close> and \<open>Slots\<close>. The list of the Signups sheet ends at its last row that
  holds data, so appended rows follow it.
\<close>

type_synonym row = "string list"
type_synonym sheet = "row list"

record store =
  Slots :: sheet
  Signups :: sheet

datatype sheet_name = SlotsSheet | SignupsSheet

datatype range =
    FromRow sheet_name int nat nat  \<comment> \<open>\<open>Sheet!<col><row>:<col>\<close>, open at the bottom\<close>
  | OneRow sheet_name int nat nat   \<comment> \<open>\<open>Sheet!<col><row>:<col><row>\<close>\<close>

datatype cell_value = StringValue string | NumberValue "int option"

datatype directive =
    AppendCells sheet_name "row list"
  | UpdateCells sheet_name int nat cell_value
      \<comment> \<open>sheet, \<open>startRowIndex\<close>, \<open>startColumnIndex\<close>, value; one cell\<close>

datatype store_call =
    ValuesGet range
  | ValuesBatchGet "range list"
  | BatchUpdate "directive list"

definition sheet_of :: "store \<Rightarrow> sheet_name \<Rightarrow> sheet" where
  "sheet_of st n = (case n of SlotsSheet \<Rightarrow> Slots st | SignupsSheet \<Rightarrow> Signups st)"

definition put_sheet :: "store \<Rightarrow> sheet_name \<Rightarrow> sheet \<Rightarrow> store" where
  "put_sheet st n sh =
     (case n of SlotsSheet \<Rightarrow> st\<lparr>Slots := sh\<rparr> | SignupsSheet \<Rightarrow> st\<lparr>Signups := sh\<rparr>)"

definition trim_row :: "row \<Rightarrow> row" where
  "trim_row r = rev (dropWhile (\<lambda>c. c = []) (rev r))"

definition trim_rows :: "row list \<Rightarrow> row list" where
  "trim_rows rs = rev (dropWhile (\<lambda>r. r = []) (rev rs))"

definition cols :: "nat \<Rightarrow> nat \<Rightarrow> row \<Rightarrow> row" where
  "cols c0 c1 r = trim_row (take (Suc c1 - c0) (drop c0 r))"

definition read_range :: "store \<Rightarrow> range \<Rightarrow> row list option" where
  \<comment> \<open>\<open>None\<close>: the service rejects the range (a row number below 1)\<close>
  "read_range st rg =
     (case rg of
        FromRow n r c0 c1 \<Rightarrow>
          if r < 1 then None
          else Some (trim_rows (map (cols c0 c1) (drop (nat (r - 1)) (sheet_of st n))))
      | OneRow n r c0 c1 \<Rightarrow>
          if r < 1 then None
          else Some (trim_rows (map (cols c0 c1) (take 1 (drop (nat (r - 1)) (sheet_of st n))))))"

definition values_get :: "bool \<Rightarrow> store \<Rightarrow> range \<Rightarrow> row list option" where
  \<comment> \<open>\<open>sheets.spreadsheets.values.get\<close>; the flag says the call fails (network, service)\<close>
  "values_get fails st rg = (if fails then None else read_range st rg)"

fun read_all :: "store \<Rightarrow> range list \<Rightarrow> row list list option" where
  "read_all st [] = Some []"
| "read_all st (rg # rgs) =
     (case read_range st rg of
        None \<Rightarrow> None
      | Some v \<Rightarrow> (case read_all st rgs of None \<Rightarrow> None | Some vs \<Rightarrow> Some (v # vs)))"

definition values_batchGet :: "bool \<Rightarrow> store \<Rightarrow> range list \<Rightarrow> row list list option" where
  \<comment> \<open>\<open>valueRanges\<close>, index-aligned with the requested ranges\<close>
  "values_batchGet fails st rgs = (if fails then None else read_all st rgs)"

definition set_cell :: "sheet \<Rightarrow> nat \<Rightarrow> nat \<Rightarrow> string \<Rightarrow> sheet" where
  "set_cell sh r c v =
     (let sh' = sh @ replicate (Suc r - length sh) [];
          old = sh' ! r
      in sh'[r := (old @ replicate (Suc c - length old) [])[c := v]])"

definition cell_text :: "cell_value \<Rightarrow> string" where
  \<comment> \<open>what a written value reads back as; a \<open>NaN\<close> number is sent as \<open>null\<close> and leaves
      the cell empty\<close>
  "cell_text v =
     (case v of StringValue s \<Rightarrow> s | NumberValue None \<Rightarrow> [] | NumberValue (Some n) \<Rightarrow> String_int n)"

definition apply_directive :: "store \<Rightarrow> directive \<Rightarrow> store option" where
  "apply_directive st d =
     (case d of
        AppendCells n rows \<Rightarrow> Some (put_sheet st n (sheet_of st n @ rows))
      | UpdateCells n r c v \<Rightarrow>
          if r < 0 then None
          else Some (put_sheet st n (set_cell (sheet_of st n) (nat r) c (cell_text v))))"

fun apply_directives :: "store \<Rightarrow> directive list \<Rightarrow> store option" where
  "apply_directives st [] = Some st"
| "apply_directives st (d # ds) =
     (case apply_directive st d of None \<Rightarrow> None | Some st' \<Rightarrow> apply_directives st' ds)"

definition batchUpdate :: "bool \<Rightarrow> store \<Rightarrow> directive list \<Rightarrow> store option" where
  \<comment> \<open>\<open>sheets.spreadsheets.batchUpdate\<close>; \<open>None\<close>: the call fails and nothing is written\<close>
  "batchUpdate fails st ds = (if fails then None else apply_directives st ds)"

definition cell :: "row \<Rightarrow> nat \<Rightarrow> string option" where
  \<comment> \<open>\<open>row[i]\<close>\<close>
  "cell r i = (if i < length r then Some (r ! i) else None)"

definition first_row :: "row list \<Rightarrow> row option" where
  \<comment> \<open>\<open>values?.[0]\<close>\<close>
  "first_row vs = (case vs of [] \<Rightarrow> None | r # _ \<Rightarrow> Some r)"


section \<open>Requests, responses and the state of the server process\<close>

text \<open>
  A request body is a JSON object. Its text fields are strings when present, and its row
  ids are integers when present; an absent field (or \<open>null\<close>) is \<open>None\<close>. \<open>slotIds\<close> is
  \<open>None\<close> when the body holds no array under that key; an array element that is not
  an integer number is \<open>OtherValue\<close>.
\<close>

datatype id_value = IntegerNumber int | OtherValue

record body =
  name :: "string option"
  phone :: "string option"
  email :: "string option"
  category :: "string option"
  notes_text :: "string option"  \<comment> \<open>the field \<open>notes\<close>\<close>
  slotIds :: "id_value list option"
  signupRowId :: "int option"
  slotRowId :: "int option"

datatype http_method = GET | POST | PATCH | OPTIONS | OTHER

record request =
  req_method :: http_method
  x_forwarded_for :: "string option"
  x_real_ip :: "string option"
  query_phone :: "string option"
  req_body :: body

record slot =
  slot_id :: int
  slot_date :: string
  slotLabel :: string
  capacity :: int
  taken :: int
  available :: int

record booking =
  bk_signupRowId :: int
  bk_timestamp :: "string option"
  bk_date :: "string option"
  bk_slotLabel :: "string option"
  bk_name :: "string option"
  bk_email :: "string option"
  bk_phone :: "string option"
  bk_category :: "string option"
  bk_notes :: "string option"
  bk_slotRowId :: "int option"
  bk_status :: string

type_synonym listing = "(string \<times> slot list) list"
  \<comment> \<open>\<open>{ok: true, dates: grouped}\<close>: the dates in the order of their first slot\<close>

datatype payload =
    NoBody
  | Error string                \<comment> \<open>\<open>{ok: false, error}\<close>\<close>
  | Message string              \<comment> \<open>\<open>{ok: true, message}\<close>\<close>
  | Bookings "booking list"     \<comment> \<open>\<open>{ok: true, bookings}\<close>\<close>
  | Dates listing               \<comment> \<open>\<open>{ok: true, dates}\<close>\<close>

record response =
  status :: nat
  json :: payload

record cache =
  slots :: "listing option"
  timestamp :: int

record server =
  rateLimitMap :: "string \<Rightarrow> int list option"
  activeBookingsMap :: "string \<Rightarrow> nat option"
  slotCache :: cache
  sheets :: store

text \<open>
  What one request finds: the clock, the formatted times, which dates are today or later
  (\<open>new Date(slot.date) >= today\<close>), and which calls to the store fail.
\<close>

record env =
  now :: int
  now_cached :: int
  nowStr :: string
  isoNow :: string
  upcoming :: "string \<Rightarrow> bool"
  fail_batchGet :: bool
  fail_get_signups :: bool
  fail_get_slots :: bool
  fail_batchUpdate :: bool

record outcome =
  resp :: response
  after :: server
  calls :: "store_call list"

section \<open>Server cache\<close>

definition getCachedSlots :: "int \<Rightarrow> cache \<Rightarrow> listing option" where
  "getCachedSlots t c =
     (case slots c of
        Some l \<Rightarrow> if t - timestamp c < CACHE_TTL then Some l else None
      | None \<Rightarrow> None)"

definition setCachedSlots :: "int \<Rightarrow> listing \<Rightarrow> cache" where
  "setCachedSlots t l = \<lparr>slots = Some l, timestamp = t\<rparr>"

definition invalidateCache :: cache where
  "invalidateCache = \<lparr>slots = None, timestamp = 0\<rparr>"

section \<open>Rate limiting\<close>

definition checkRateLimit ::
  "int \<Rightarrow> string \<Rightarrow> (string \<Rightarrow> int list option) \<Rightarrow> bool \<times> (string \<Rightarrow> int list option)" where
  "checkRateLimit t identifier m =
     (let reqs = (case m identifier of None \<Rightarrow> [] | Some r \<Rightarrow> r);
          recent = filter (\<lambda>u. t - u < RATE_LIMIT_WINDOW) reqs
      in if length recent \<ge> RATE_LIMIT_MAX_REQUESTS then (False, m)
         else (True, m(identifier \<mapsto> recent @ [t])))"

definition cleanupRateLimitMap :: "int \<Rightarrow> (string \<Rightarrow> int list option) \<Rightarrow> (string \<Rightarrow> int list option)" where
  "cleanupRateLimitMap t m =
     (\<lambda>k. case m k of
             None \<Rightarrow> None
           | Some ts \<Rightarrow>
               (let valid = filter (\<lambda>u. t - u < RATE_LIMIT_WINDOW) ts
                in if valid \<noteq> [] then Some valid else None))"

definition active_count :: "(string \<Rightarrow> nat option) \<Rightarrow> string \<Rightarrow> nat" where
  \<comment> \<open>\<open>activeBookingsMap.get(phone) || 0\<close>\<close>
  "active_count m p = (case m p of None \<Rightarrow> 0 | Some n \<Rightarrow> n)"

definition checkConcurrentBookings :: "string \<Rightarrow> (string \<Rightarrow> nat option) \<Rightarrow> bool" where
  "checkConcurrentBookings p m = (active_count m p < MAX_CONCURRENT_BOOKINGS)"

definition incrementActiveBookings :: "string \<Rightarrow> (string \<Rightarrow> nat option) \<Rightarrow> (string \<Rightarrow> nat option)" where
  "incrementActiveBookings p m = m(p \<mapsto> active_count m p + 1)"

definition decrementActiveBookings :: "string \<Rightarrow> (string \<Rightarrow> nat option) \<Rightarrow> (string \<Rightarrow> nat option)" where
  "decrementActiveBookings p m =
     (if active_count m p > 0 then m(p \<mapsto> active_count m p - 1) else m)"

definition periodic_sweep :: "int \<Rightarrow> server \<Rightarrow> server" where
  \<comment> \<open>the \<open>setInterval\<close> callback\<close>
  "periodic_sweep t s =
     s\<lparr>rateLimitMap := cleanupRateLimitMap t (rateLimitMap s), activeBookingsMap := Map.empty\<rparr>"

section \<open>Validation and sanitization\<close>

definition sanitizeInput :: "string option \<Rightarrow> nat \<Rightarrow> string" where
  "sanitizeInput str maxLength =
     (case str of
        None \<Rightarrow> []
      | Some s \<Rightarrow>
          if s = [] then []
          else take maxLength (filter (\<lambda>c. c \<noteq> CHR ''<'' \<and> c \<noteq> CHR ''>'') (trim s)))"

definition email_atom :: "char \<Rightarrow> bool" where
  \<comment> \<open>the class \<open>[^\s@]\<close>\<close>
  "email_atom c = (\<not> is_space c \<and> c \<noteq> CHR ''@'')"

definition emailRegex_test :: "string \<Rightarrow> bool" where
  \<comment> \<open>\<open>/^[^\s@]+@[^\s@]+\.[^\s@]+$/\<close>: a run of atoms, one \<open>@\<close>, then atoms only with a
      dot that is neither their first nor their last character\<close>
  "emailRegex_test s =
     (takeWhile email_atom s \<noteq> [] \<and>
      (case dropWhile email_atom s of
         [] \<Rightarrow> False
       | c # host \<Rightarrow> c = CHR ''@'' \<and> list_all email_atom host \<and> CHR ''.'' \<in> set (butlast (tl host))))"

definition isValidEmail :: "string option \<Rightarrow> bool" where
  "isValidEmail e =
     (case e of
        None \<Rightarrow> True
      | Some s \<Rightarrow> if s = [] then True else emailRegex_test s \<and> length s \<le> MAX_EMAIL_LENGTH)"

definition phone_char :: "char \<Rightarrow> bool" where
  \<comment> \<open>the class \<open>[\d\s\-\+\(\)]\<close>\<close>
  "phone_char c = (is_digit c \<or> is_space c \<or> c \<in> {CHR ''-'', CHR ''+'', CHR ''('', CHR '')''})"

definition isValidPhone :: "string option \<Rightarrow> bool" where
  "isValidPhone p =
     (case p of
        None \<Rightarrow> False
      | Some s \<Rightarrow> s \<noteq> [] \<and> list_all phone_char s \<and> 8 \<le> length s \<and> length s \<le> 20)"

datatype exception = TypeError | StoreError

definition required_missing :: "string option \<Rightarrow> nat \<Rightarrow> bool" where
  \<comment> \<open>\<open>!field?.trim() || field.length > max\<close>\<close>
  "required_missing v m = (case v of None \<Rightarrow> True | Some s \<Rightarrow> trim s = [] \<or> length s > m)"

definition valid_id :: "id_value \<Rightarrow> bool" where
  \<comment> \<open>\<open>Number.isInteger(id) && id > 0\<close>\<close>
  "valid_id v = (case v of IntegerNumber n \<Rightarrow> n > 0 | OtherValue \<Rightarrow> False)"

definition validateBookingRequest :: "body \<Rightarrow> exception + string list" where
  \<comment> \<open>the errors in the order they are pushed; the last test calls \<open>body.slotIds.every\<close>,
      which throws when there is no array\<close>
  "validateBookingRequest b =
     (let e1 = (if required_missing (name b) MAX_NAME_LENGTH
                then [''Name is required (max '' @ String_int (int MAX_NAME_LENGTH) @ '' characters).'']
                else []);
          e2 = (if (case phone b of None \<Rightarrow> True | Some s \<Rightarrow> trim s = []) \<or> \<not> isValidPhone (phone b)
                then [''Valid phone number is required.''] else []);
          e3 = (if truthy (email b) \<and> \<not> isValidEmail (email b)
                then [''Invalid email address.''] else []);
          e4 = (if required_missing (category b) MAX_CATEGORY_LENGTH
                then [''Valid category selection is required.''] else []);
          e5 = (if (case notes_text b of None \<Rightarrow> False | Some s \<Rightarrow> s \<noteq> [] \<and> length s > MAX_NOTES_LENGTH)
                then [''Notes must be less than '' @ String_int (int MAX_NOTES_LENGTH) @ '' characters.'']
                else []);
          e6 = (if (case slotIds b of None \<Rightarrow> True | Some ids \<Rightarrow> ids = [])
                then [''At least one slot must be selected.''] else []);
          e7 = (if (case slotIds b of None \<Rightarrow> False | Some ids \<Rightarrow> length ids > MAX_SLOTS_PER_BOOKING)
                then [''Only up to '' @ String_int (int MAX_SLOTS_PER_BOOKING) @ '' slots allowed.'']
                else [])
      in case slotIds b of
           None \<Rightarrow> Inl TypeError
         | Some ids \<Rightarrow>
             Inr (e1 @ e2 @ e3 @ e4 @ e5 @ e6 @ e7 @
                  (if \<not> list_all valid_id ids then [''Invalid slot IDs provided.''] else [])))"


section \<open>The handler\<close>

definition reply :: "nat \<Rightarrow> payload \<Rightarrow> server \<Rightarrow> store_call list \<Rightarrow> outcome" where
  \<comment> \<open>\<open>return res.status(code).json(payload)\<close>, in the state reached, after the store
      calls made\<close>
  "reply code p s cs = \<lparr>resp = \<lparr>status = code, json = p\<rparr>, after = s, calls = cs\<rparr>"

definition clientIP :: "request \<Rightarrow> string" where
  \<comment> \<open>\<open>headers['x-forwarded-for']?.split(',')[0] || headers['x-real-ip'] || 'unknown'\<close>\<close>
  "clientIP req =
     (let first = map_option (takeWhile (\<lambda>c. c \<noteq> CHR '','')) (x_forwarded_for req)
      in if truthy first then String_of first
         else if truthy (x_real_ip req) then String_of (x_real_ip req)
         else ''unknown'')"

subsection \<open>GET: bookings of a phone number\<close>

definition to_booking :: "int \<Rightarrow> row \<Rightarrow> booking" where
  "to_booking i r =
     \<lparr>bk_signupRowId = i,
      bk_timestamp = cell r SIGNUPS_TIMESTAMP,
      bk_date = cell r SIGNUPS_DATE,
      bk_slotLabel = cell r SIGNUPS_SLOT_LABEL,
      bk_name = cell r SIGNUPS_NAME,
      bk_email = cell r SIGNUPS_EMAIL,
      bk_phone = cell r SIGNUPS_PHONE,
      bk_category = cell r SIGNUPS_CATEGORY,
      bk_notes = cell r SIGNUPS_NOTES,
      bk_slotRowId = (case parseInt (cell r SIGNUPS_SLOT_ROW_ID) of
                        None \<Rightarrow> None | Some n \<Rightarrow> if n = 0 then None else Some n),
      bk_status = (if truthy (cell r SIGNUPS_STATUS) then String_of (cell r SIGNUPS_STATUS)
                   else ''ACTIVE'')\<rparr>"

definition indexed :: "row list \<Rightarrow> (int \<times> row) list" where
  \<comment> \<open>the rows of a range that starts at row 2, with \<open>idx + 2\<close>\<close>
  "indexed rs = zip (map (\<lambda>i. int i + 2) [0..<length rs]) rs"

definition signups_range :: range where
  "signups_range = FromRow SignupsSheet 2 0 9"  \<comment> \<open>\<open>Signups!A2:J\<close>\<close>

definition slots_range :: range where
  "slots_range = FromRow SlotsSheet 2 0 4"  \<comment> \<open>\<open>Slots!A2:E\<close>\<close>

definition handle_lookup :: "env \<Rightarrow> request \<Rightarrow> server \<Rightarrow> outcome" where
  "handle_lookup e req s =
     (let lookupPhone = sanitizeInput (query_phone req) MAX_PHONE_LENGTH
      in if \<not> isValidPhone (Some lookupPhone)
         then reply 400 (Error ''Invalid phone number format.'') s []
         else
           (case values_get (fail_get_signups e) (sheets s) signups_range of
              None \<Rightarrow> reply 500 (Error ''Failed to fetch bookings.'') s [ValuesGet signups_range]
            | Some rows \<Rightarrow>
                reply 200
                  (Bookings
                     (filter (\<lambda>b. map_option trim (bk_phone b) = Some lookupPhone \<and>
                                   bk_status b = ''ACTIVE'')
                        (map (\<lambda>(i, r). to_booking i r) (indexed rows))))
                  s [ValuesGet signups_range]))"

subsection \<open>GET: the listing of available slots\<close>

definition or_empty :: "string option \<Rightarrow> string" where
  \<comment> \<open>\<open>x || ""\<close>\<close>
  "or_empty v = (case v of None \<Rightarrow> [] | Some t \<Rightarrow> t)"

definition to_slot :: "int \<Rightarrow> row \<Rightarrow> slot" where
  "to_slot i r =
     \<lparr>slot_id = i,
      slot_date = or_empty (cell r SLOTS_DATE),
      slotLabel = or_empty (cell r SLOTS_LABEL),
      capacity = or_zero (parseInt (cell r SLOTS_CAPACITY)),
      taken = or_zero (parseInt (cell r SLOTS_TAKEN)),
      available = max 0 (or_zero (parseInt (cell r SLOTS_CAPACITY)) -
                         or_zero (parseInt (cell r SLOTS_TAKEN)))\<rparr>"

definition group_push :: "listing \<Rightarrow> slot \<Rightarrow> listing" where
  \<comment> \<open>\<open>if (!grouped[d]) grouped[d] = []; grouped[d].push(slot)\<close>\<close>
  "group_push g x =
     (if slot_date x \<in> fst ` set g
      then map (\<lambda>(d, xs). if d = slot_date x then (d, xs @ [x]) else (d, xs)) g
      else g @ [(slot_date x, [x])])"

definition group_slots :: "(string \<Rightarrow> bool) \<Rightarrow> slot list \<Rightarrow> listing" where
  "group_slots up xs = foldl group_push [] (filter (\<lambda>x. up (slot_date x) \<and> capacity x > 0) xs)"

definition build_listing :: "(string \<Rightarrow> bool) \<Rightarrow> row list \<Rightarrow> listing" where
  "build_listing up rows = group_slots up (map (\<lambda>(i, r). to_slot i r) (indexed rows))"

definition handle_listing :: "env \<Rightarrow> server \<Rightarrow> outcome" where
  "handle_listing e s =
     (case getCachedSlots (now e) (slotCache s) of
        Some cached \<Rightarrow> reply 200 (Dates cached) s []
      | None \<Rightarrow>
          (case values_get (fail_get_slots e) (sheets s) slots_range of
             None \<Rightarrow> reply 500 (Error ''Slots not available.'') s [ValuesGet slots_range]
           | Some rows \<Rightarrow>
               (let result = build_listing (upcoming e) rows
                in reply 200 (Dates result)
                     (s\<lparr>slotCache := setCachedSlots (now_cached e) result\<rparr>)
                     [ValuesGet slots_range])))"

subsection \<open>POST: create a booking\<close>

record applicant =
  ap_nowStr :: string
  ap_name :: string
  ap_email :: string
  ap_phone :: string
  ap_category :: string
  ap_notes :: string

definition is_duplicate :: "string \<Rightarrow> int \<Rightarrow> row \<Rightarrow> bool" where
  \<comment> \<open>the predicate of \<open>existing.find\<close>\<close>
  "is_duplicate p slotId r =
     (map_option trim (cell r SIGNUPS_PHONE) = Some p \<and>
      parseInt (cell r SIGNUPS_SLOT_ROW_ID) = Some slotId \<and>
      startsWith (if truthy (cell r SIGNUPS_STATUS) then String_of (cell r SIGNUPS_STATUS)
                  else ''ACTIVE'') ''ACTIVE'')"

definition signup_row :: "applicant \<Rightarrow> string option \<Rightarrow> string option \<Rightarrow> int \<Rightarrow> row" where
  \<comment> \<open>one element of \<open>signupRows\<close>, each value already through \<open>String(c)\<close> as the write
      sends it\<close>
  "signup_row ap date label slotId =
     [ap_nowStr ap, String_of date, String_of label, ap_name ap, ap_email ap, ap_phone ap,
      ap_category ap, ap_notes ap, String_int slotId, ''ACTIVE'']"

fun book_slots ::
  "applicant \<Rightarrow> row list \<Rightarrow> (int \<times> row list) list \<Rightarrow> row list \<Rightarrow> (int \<times> int) list
     \<Rightarrow> response + row list \<times> (int \<times> int) list" where
  "book_slots ap existing [] signupRows updateRequests = Inr (signupRows, updateRequests)"
| "book_slots ap existing ((slotId, vals) # rest) signupRows updateRequests =
     (case first_row vals of
        None \<Rightarrow> Inl \<lparr>status = 400, json = Error ''Slot data missing.''\<rparr>
      | Some r \<Rightarrow>
          (let date = cell r SLOTS_DATE;
               label = cell r SLOTS_LABEL;
               cap = or_zero (parseInt (cell r SLOTS_CAPACITY));
               tkn = or_zero (parseInt (cell r SLOTS_TAKEN))
           in if list_ex (is_duplicate (ap_phone ap) slotId) existing
              then Inl \<lparr>status = 409,
                        json = Error (''Already booked '' @ String_of label @ '' on '' @
                                      String_of date @ ''.'')\<rparr>
              else if tkn \<ge> cap
              then Inl \<lparr>status = 409,
                        json = Error (''Slot '' @ String_of label @ '' on '' @
                                      String_of date @ '' is full.'')\<rparr>
              else book_slots ap existing rest
                     (signupRows @ [signup_row ap date label slotId])
                     (updateRequests @ [(slotId, tkn + 1)])))"

definition id_number :: "id_value \<Rightarrow> int" where
  \<comment> \<open>the number of a validated slot id (every entry is an integer when this is used)\<close>
  "id_number v = (case v of IntegerNumber n \<Rightarrow> n | OtherValue \<Rightarrow> 0)"

definition slot_row_range :: "int \<Rightarrow> range" where
  "slot_row_range i = OneRow SlotsSheet i 0 3"  \<comment> \<open>\<open>Slots!A<id>:D<id>\<close>\<close>

definition booking_directives :: "row list \<Rightarrow> (int \<times> int) list \<Rightarrow> directive list" where
  \<comment> \<open>one \<open>appendCells\<close> for the Signups sheet, then one \<open>updateCells\<close> of column D per
      update request, at the row whose number is the first run of digits of its range
      \<open>Slots!D<id>\<close>\<close>
  "booking_directives signupRows updateRequests =
     AppendCells SignupsSheet signupRows #
     map (\<lambda>(i, t). UpdateCells SlotsSheet (i - 1) 3 (NumberValue (Some t))) updateRequests"

definition applicant_of :: "env \<Rightarrow> body \<Rightarrow> applicant" where
  \<comment> \<open>the sanitized fields of the body, with the time of the booking\<close>
  "applicant_of e b =
     \<lparr>ap_nowStr = nowStr e,
      ap_name = sanitizeInput (name b) MAX_NAME_LENGTH,
      ap_email = toLowerCase (sanitizeInput (email b) MAX_EMAIL_LENGTH),
      ap_phone = sanitizeInput (phone b) MAX_PHONE_LENGTH,
      ap_category = sanitizeInput (category b) MAX_CATEGORY_LENGTH,
      ap_notes = sanitizeInput (notes_text b) MAX_NOTES_LENGTH\<rparr>"

definition requested_ids :: "body \<Rightarrow> int list" where
  \<comment> \<open>\<open>req.body.slotIds\<close> after validation\<close>
  "requested_ids b = map id_number (case slotIds b of None \<Rightarrow> [] | Some l \<Rightarrow> l)"

definition handle_post :: "env \<Rightarrow> request \<Rightarrow> server \<Rightarrow> outcome" where
  "handle_post e req s =
     (case validateBookingRequest (req_body req) of
        Inl ex \<Rightarrow> reply 500 (Error ''Unexpected server error.'') s []
      | Inr errors \<Rightarrow>
          if errors \<noteq> [] then reply 400 (Error (join ''; '' errors)) s []
          else
            (let ap = applicant_of e (req_body req);
                 ids = requested_ids (req_body req);
                 ranges = map slot_row_range ids
             in if \<not> checkConcurrentBookings (ap_phone ap) (activeBookingsMap s)
                then reply 429 (Error ''Too many concurrent requests. Try again.'') s []
                else
                  (let s1 = s\<lparr>activeBookingsMap :=
                                 incrementActiveBookings (ap_phone ap) (activeBookingsMap s)\<rparr>;
                       released = s1\<lparr>activeBookingsMap :=
                                 decrementActiveBookings (ap_phone ap) (activeBookingsMap s1)\<rparr>;
                       failed = reply 500 (Error ''Booking could not be completed.'') released
                   in case values_batchGet (fail_batchGet e) (sheets s1) ranges of
                        None \<Rightarrow> failed [ValuesBatchGet ranges]
                      | Some slotRanges \<Rightarrow>
                          (case values_get (fail_get_signups e) (sheets s1) signups_range of
                             None \<Rightarrow> failed [ValuesBatchGet ranges, ValuesGet signups_range]
                           | Some existing \<Rightarrow>
                               (case book_slots ap existing (zip ids slotRanges) [] [] of
                                  Inl r \<Rightarrow>
                                    \<lparr>resp = r, after = s1,
                                     calls = [ValuesBatchGet ranges, ValuesGet signups_range]\<rparr>
                                | Inr (signupRows, updateRequests) \<Rightarrow>
                                    (let ds = booking_directives signupRows updateRequests;
                                         cs = [ValuesBatchGet ranges, ValuesGet signups_range,
                                               BatchUpdate ds]
                                     in case batchUpdate (fail_batchUpdate e) (sheets s1) ds of
                                          None \<Rightarrow> failed cs
                                        | Some st \<Rightarrow>
                                            reply 200 (Message ''Booking successful!'')
                                              (released\<lparr>slotCache := invalidateCache,
                                                        sheets := st\<rparr>)
                                              cs))))))"

subsection \<open>PATCH: cancel a booking\<close>

definition signup_row_range :: "int \<Rightarrow> range" where
  "signup_row_range i = OneRow SignupsSheet i 0 9"  \<comment> \<open>\<open>Signups!A<id>:J<id>\<close>\<close>

definition taken_cell_range :: "int \<Rightarrow> range" where
  "taken_cell_range i = OneRow SlotsSheet i 3 3"  \<comment> \<open>\<open>Slots!D<id>\<close>\<close>

definition currentTaken :: "row list \<Rightarrow> int option" where
  \<comment> \<open>\<open>parseInt(values?.[0]?.[0] || 0)\<close>\<close>
  "currentTaken vs =
     (let c = (case first_row vs of None \<Rightarrow> None | Some r \<Rightarrow> cell r 0)
      in if truthy c then parseInt c else Some 0)"

definition newTaken :: "int option \<Rightarrow> int option" where
  \<comment> \<open>\<open>Math.max(0, currentTaken - 1)\<close>, which is \<open>NaN\<close> for \<open>NaN\<close>\<close>
  "newTaken t = map_option (\<lambda>n. max 0 (n - 1)) t"

definition cancel_directives :: "string \<Rightarrow> int \<Rightarrow> int \<Rightarrow> int option \<Rightarrow> directive list" where
  "cancel_directives ts signupId slotId t =
     [UpdateCells SignupsSheet (signupId - 1) 9 (StringValue (''CANCELLED:'' @ ts)),
      UpdateCells SlotsSheet (slotId - 1) 3 (NumberValue t)]"

definition falsy_id :: "int option \<Rightarrow> bool" where
  \<comment> \<open>\<open>!id\<close> for a number or a missing field\<close>
  "falsy_id v = (case v of None \<Rightarrow> True | Some n \<Rightarrow> n = 0)"

definition handle_patch :: "env \<Rightarrow> request \<Rightarrow> server \<Rightarrow> outcome" where
  "handle_patch e req s =
     (let b = req_body req
      in if falsy_id (signupRowId b) \<or> falsy_id (slotRowId b) \<or> \<not> truthy (phone b)
         then reply 400 (Error ''Missing cancellation parameters.'') s []
         else
           (let signupId = or_zero (signupRowId b);
                slotId = or_zero (slotRowId b);
                failed = reply 500 (Error ''Cancellation failed.'') s;
                c1 = ValuesGet (signup_row_range signupId);
                c2 = ValuesGet (taken_cell_range slotId)
            in case values_get (fail_get_signups e) (sheets s) (signup_row_range signupId) of
                 None \<Rightarrow> failed [c1]
               | Some vs \<Rightarrow>
                   (case first_row vs of
                      None \<Rightarrow> reply 404 (Error ''Booking not found.'') s [c1]
                    | Some r \<Rightarrow>
                        if map_option trim (cell r SIGNUPS_PHONE) \<noteq> phone b
                        then reply 403 (Error ''Phone number does not match booking.'') s [c1]
                        else
                          (case values_get (fail_get_slots e) (sheets s) (taken_cell_range slotId) of
                             None \<Rightarrow> failed [c1, c2]
                           | Some tv \<Rightarrow>
                               (let ds = cancel_directives (isoNow e) signupId slotId
                                           (newTaken (currentTaken tv))
                                in case batchUpdate (fail_batchUpdate e) (sheets s) ds of
                                     None \<Rightarrow> failed [c1, c2, BatchUpdate ds]
                                   | Some st \<Rightarrow>
                                       reply 200 (Message ''Booking cancelled successfully.'')
                                         (s\<lparr>slotCache := invalidateCache, sheets := st\<rparr>)
                                         [c1, c2, BatchUpdate ds])))))"

subsection \<open>The exported handler\<close>

definition handler :: "env \<Rightarrow> request \<Rightarrow> server \<Rightarrow> outcome" where
  "handler e req s =
     (if req_method req = OPTIONS then reply 200 NoBody s []
      else
        (let (allowed, m) = checkRateLimit (now e) (clientIP req) (rateLimitMap s);
             s0 = s\<lparr>rateLimitMap := m\<rparr>
         in if \<not> allowed
            then reply 429 (Error ''Too many requests. Please try again later.'') s0 []
            else
              (case req_method req of
                 GET \<Rightarrow> if truthy (query_phone req) then handle_lookup e req s0
                        else handle_listing e s0
               | POST \<Rightarrow> handle_post e req s0
               | PATCH \<Rightarrow> handle_patch e req s0
               | _ \<Rightarrow> reply 405 (Error ''Method not allowed.'') s0 [])))"


section \<open>Sequences of calls\<close>





text \<open>
  What the loop of the booking does with one requested slot: it fails its check when its
  row is missing, when a signup of the phone for it is active, or when it is full;
  otherwise it contributes one signup row and one update of its taken cell.
\<close>

definition slot_fails :: "string \<Rightarrow> row list \<Rightarrow> int \<times> row list \<Rightarrow> bool" where
  "slot_fails p existing x =
     (case first_row (snd x) of
        None \<Rightarrow> True
      | Some r \<Rightarrow>
          list_ex (is_duplicate p (fst x)) existing \<or>
          or_zero (parseInt (cell r SLOTS_TAKEN)) \<ge> or_zero (parseInt (cell r SLOTS_CAPACITY)))"

definition slot_signup :: "applicant \<Rightarrow> int \<times> row list \<Rightarrow> row" where
  "slot_signup ap x =
     (case first_row (snd x) of
        None \<Rightarrow> []
      | Some r \<Rightarrow> signup_row ap (cell r SLOTS_DATE) (cell r SLOTS_LABEL) (fst x))"

definition slot_update :: "int \<times> row list \<Rightarrow> int \<times> int" where
  "slot_update x =
     (case first_row (snd x) of
        None \<Rightarrow> (fst x, 1)
      | Some r \<Rightarrow> (fst x, or_zero (parseInt (cell r SLOTS_TAKEN)) + 1))"


text \<open>
  The numbers of a slot row as the handler reads them (\<open>parseInt(row[i]) || 0\<close>), and the
  capacity invariant of the Slots sheet.
\<close>

definition row_taken :: "row \<Rightarrow> int" where
  "row_taken r = or_zero (parseInt (cell r SLOTS_TAKEN))"

definition row_capacity :: "row \<Rightarrow> int" where
  "row_capacity r = or_zero (parseInt (cell r SLOTS_CAPACITY))"

definition slots_invariant :: "store \<Rightarrow> bool" where
  "slots_invariant st = (\<forall>r\<in>set (Slots st). 0 \<le> row_taken r \<and> row_taken r \<le> row_capacity r)"

definition text_of :: "row \<Rightarrow> nat \<Rightarrow> string" where
  \<comment> \<open>the text of a cell of a row; empty beyond its end\<close>
  "text_of r c = (if c < length r then r ! c else [])"

text \<open>
  The signup rows as the duplicate scan reads them (the range \<open>Signups!A2:J\<close>), and the
  duplicate-booking invariant: no phone has two active signups for one slot.
\<close>

definition signup_rows :: "store \<Rightarrow> row list" where
  "signup_rows st = trim_rows (map (cols 0 9) (drop 1 (Signups st)))"

definition no_double_booking :: "store \<Rightarrow> bool" where
  "no_double_booking st = (\<forall>p i. length (filter (is_duplicate p i) (signup_rows st)) \<le> 1)"

text \<open>Requests handled one after the other, each in the state the one before left.\<close>

fun run :: "(env \<times> request) list \<Rightarrow> server \<Rightarrow> server" where
  "run [] s = s"
| "run ((e, req) # rest) s = run rest (after (handler e req s))"

section \<open>Cells of a sheet, and an example\<close>

definition cell_at :: "sheet \<Rightarrow> nat \<Rightarrow> nat \<Rightarrow> string" where
  \<comment> \<open>the text of a cell by row and column index (from 0); empty where the sheet has none\<close>
  "cell_at sh r c = (if r < length sh \<and> c < length (sh ! r) then sh ! r ! c else [])"

text \<open>
  A small store: slot rows 2, 3 and 5 (row 4 is blank; row 3 is full), one active signup
  (row 2, for slot 3) and one cancelled signup (row 3, for slot 2), both of one phone.
\<close>

definition ex_store :: store where
  "ex_store =
     \<lparr>Slots = [[''Date'', ''Label'', ''Capacity'', ''Taken'', ''Available''],
               [''2030-01-01'', ''9am'', ''3'', ''1'', ''2''],
               [''2030-01-01'', ''10am'', ''2'', ''2'', ''0''],
               [],
               [''2030-01-02'', ''9am'', ''3'', ''1'', ''2'']],
      Signups = [[''Timestamp'', ''Date'', ''Slot'', ''Name'', ''Email'', ''Phone'', ''Category'',
                  ''Notes'', ''Slot Row'', ''Status''],
                 [''t1'', ''2030-01-01'', ''10am'', ''Ann'', [], ''5551234567'', ''A'', [], ''3'',
                  ''ACTIVE''],
                 [''t0'', ''2030-01-01'', ''9am'', ''Ann'', [], ''5551234567'', ''A'', [], ''2'',
                  ''CANCELLED:t2'']]\<rparr>"

definition ex_server :: server where
  "ex_server =
     \<lparr>rateLimitMap = Map.empty, activeBookingsMap = Map.empty, slotCache = invalidateCache,
      sheets = ex_store\<rparr>"

definition ex_env :: env where
  "ex_env =
     \<lparr>now = 1000, now_cached = 1001, nowStr = ''NOW'', isoNow = ''ISO'',
      upcoming = (\<lambda>d. d \<noteq> []),
      fail_batchGet = False, fail_get_signups = False, fail_get_slots = False,
      fail_batchUpdate = False\<rparr>"

definition ex_request :: "http_method \<Rightarrow> body \<Rightarrow> request" where
  "ex_request m b =
     \<lparr>req_method = m, x_forwarded_for = Some ''10.0.0.1, 10.0.0.2'', x_real_ip = None,
      query_phone = None, req_body = b\<rparr>"

definition ex_book :: "string \<Rightarrow> id_value list option \<Rightarrow> request" where
  "ex_book p ids =
     ex_request POST
       \<lparr>name = Some ''Bob'', phone = Some p, email = None, category = Some ''A'',
        notes_text = None, slotIds = ids, signupRowId = None, slotRowId = None\<rparr>"

definition ex_cancel :: "int \<Rightarrow> int \<Rightarrow> string \<Rightarrow> request" where
  "ex_cancel signupId slotId p =
     ex_request PATCH
       \<lparr>name = None, phone = Some p, email = None, category = None, notes_text = None,
        slotIds = None, signupRowId = Some signupId, slotRowId = Some slotId\<rparr>"

definition taken_at :: "sheet \<Rightarrow> nat \<Rightarrow> int" where
  \<comment> \<open>the taken number of the row with index \<open>k\<close> (row \<open>k + 1\<close>) of a Slots sheet\<close>
  "taken_at sh k = or_zero (parseInt_str (cell_at sh k SLOTS_TAKEN))"

definition capacity_at :: "sheet \<Rightarrow> nat \<Rightarrow> int" where
  "capacity_at sh k = or_zero (parseInt_str (cell_at sh k SLOTS_CAPACITY))"



definition ex_get :: request where
  "ex_get =
     ex_request GET
       \<lparr>name = None, phone = None, email = None, category = None, notes_text = None,
        slotIds = None, signupRowId = None, slotRowId = None\<rparr>"

definition ex_cached :: server where
  \<comment> \<open>the example server after a listing read at time 900, whose result it caches\<close>
  "ex_cached = after (handler (ex_env\<lparr>now := 900, now_cached := 901\<rparr>) ex_get ex_server)"

section \<open>The rate limiter\<close>







section \<open>Cancellation\<close>


lemma cell_at_set_cell:
  "cell_at (set_cell sh r c v) r' c' = (if r' = r \<and> c' = c then v else cell_at sh r' c')"
  by (auto simp: cell_at_def set_cell_def Let_def nth_append nth_list_update nth_Cons' simp flip: replicate_Suc)

lemma handler_PATCH:
  assumes "req_method req = PATCH" and "fst (checkRateLimit (now e) (clientIP req) (rateLimitMap s))"
  shows "handler e req s =
           handle_patch e req (s\<lparr>rateLimitMap := snd (checkRateLimit (now e) (clientIP req) (rateLimitMap s))\<rparr>)"
  using assms by (cases "checkRateLimit (now e) (clientIP req) (rateLimitMap s)") (simp add: handler_def Let_def)

lemma handler_POST:
  assumes "req_method req = POST" and "fst (checkRateLimit (now e) (clientIP req) (rateLimitMap s))"
  shows "handler e req s =
           handle_post e req (s\<lparr>rateLimitMap := snd (checkRateLimit (now e) (clientIP req) (rateLimitMap s))\<rparr>)"
  using assms by (cases "checkRateLimit (now e) (clientIP req) (rateLimitMap s)") (simp add: handler_def Let_def)

lemma handler_listing:
  assumes "req_method req = GET" and "\<not> truthy (query_phone req)"
    and "fst (checkRateLimit (now e) (clientIP req) (rateLimitMap s))"
  shows "handler e req s =
           handle_listing e (s\<lparr>rateLimitMap := snd (checkRateLimit (now e) (clientIP req) (rateLimitMap s))\<rparr>)"
  using assms by (cases "checkRateLimit (now e) (clientIP req) (rateLimitMap s)") (simp add: handler_def Let_def)

text \<open>
  C8. A cancellation whose read of the signup row succeeds and finds no row is answered 404
  (booking not found); one that finds a row whose stored phone, trimmed, differs from the
  caller's is answered 403 (phone mismatch). In both cases the only store call is that one
  read: nothing is written, the sheets and the cache are as before.
\<close>

theorem cancel_unauthorized_no_write:
  assumes "req_method req = PATCH"
    and "fst (checkRateLimit (now e) (clientIP req) (rateLimitMap s))"
    and "\<not> falsy_id (signupRowId (req_body req))"
    and "\<not> falsy_id (slotRowId (req_body req))"
    and "truthy (phone (req_body req))"
    and "values_get (fail_get_signups e) (sheets s)
           (signup_row_range (or_zero (signupRowId (req_body req)))) = Some vs"
  shows "(first_row vs = None \<longrightarrow>
            resp (handler e req s) = \<lparr>status = 404, json = Error ''Booking not found.''\<rparr>) \<and>
         (\<forall>r. first_row vs = Some r \<and> map_option trim (cell r SIGNUPS_PHONE) \<noteq> phone (req_body req) \<longrightarrow>
            resp (handler e req s) =
              \<lparr>status = 403, json = Error ''Phone number does not match booking.''\<rparr>) \<and>
         (first_row vs = None \<or>
          (\<exists>r. first_row vs = Some r \<and> map_option trim (cell r SIGNUPS_PHONE) \<noteq> phone (req_body req)) \<longrightarrow>
            sheets (after (handler e req s)) = sheets s \<and>
            slotCache (after (handler e req s)) = slotCache s \<and>
            calls (handler e req s) =
              [ValuesGet (signup_row_range (or_zero (signupRowId (req_body req))))])"
  using assms(3-6)
  by (auto simp: handler_PATCH[OF assms(1,2)] handle_patch_def Let_def reply_def)


lemma trim_rows_single: "trim_rows [x] = (if x = [] then [] else [x])"
  by (simp add: trim_rows_def)

lemma take1_drop: "take (Suc 0) (drop k xs) = (if k < length xs then [xs ! k] else [])"
proof (cases "k < length xs")
  case True
  then have "drop k xs = xs ! k # drop (Suc k) xs"
    by (simp add: Cons_nth_drop_Suc)
  then show ?thesis using True by simp
next
  case False
  then show ?thesis by simp
qed

lemma read_one_row:
  "read_range st (OneRow n r c0 c1) =
     (if r < 1 then None
      else if nat (r - 1) < length (sheet_of st n) \<and> cols c0 c1 (sheet_of st n ! nat (r - 1)) \<noteq> []
           then Some [cols c0 c1 (sheet_of st n ! nat (r - 1))]
           else Some [])"
  by (simp add: read_range_def take1_drop trim_rows_single trim_rows_def)

lemma values_get_one_row:
  assumes "values_get f st (OneRow n r c0 c1) = Some vs"
  shows "\<not> f \<and> r \<ge> 1 \<and>
         first_row vs = (if nat (r - 1) < length (sheet_of st n) \<and>
                             cols c0 c1 (sheet_of st n ! nat (r - 1)) \<noteq> []
                          then Some (cols c0 c1 (sheet_of st n ! nat (r - 1))) else None)"
  using assms by (auto simp: values_get_def read_one_row first_row_def split: if_splits)

lemma ex_allowed: "fst (checkRateLimit t i (rateLimitMap ex_server))"
  by (simp add: checkRateLimit_def ex_server_def RATE_LIMIT_MAX_REQUESTS_def)

theorem cancel_unauthorized_no_write_witness:
  "resp (handler ex_env (ex_cancel 7 3 ''5551234567'') ex_server) =
     \<lparr>status = 404, json = Error ''Booking not found.''\<rparr> \<and>
   sheets (after (handler ex_env (ex_cancel 7 3 ''5551234567'') ex_server)) = sheets ex_server \<and>
   resp (handler ex_env (ex_cancel 2 3 ''5550000000'') ex_server) =
     \<lparr>status = 403, json = Error ''Phone number does not match booking.''\<rparr> \<and>
   sheets (after (handler ex_env (ex_cancel 2 3 ''5550000000'') ex_server)) = sheets ex_server"
proof -
  let ?a = "ex_cancel 7 3 ''5551234567''" and ?b = "ex_cancel 2 3 ''5550000000''"
  have m: "req_method ?a = PATCH" "req_method ?b = PATCH"
    by (simp_all add: ex_cancel_def ex_request_def)
  have p: "\<not> falsy_id (signupRowId (req_body ?a))" "\<not> falsy_id (slotRowId (req_body ?a))"
      "truthy (phone (req_body ?a))"
      "\<not> falsy_id (signupRowId (req_body ?b))" "\<not> falsy_id (slotRowId (req_body ?b))"
      "truthy (phone (req_body ?b))"
    by (simp_all add: ex_cancel_def ex_request_def falsy_id_def truthy_def)
  have ra: "values_get (fail_get_signups ex_env) (sheets ex_server)
              (signup_row_range (or_zero (signupRowId (req_body ?a)))) = Some []"
    by code_simp
  have rb: "values_get (fail_get_signups ex_env) (sheets ex_server)
              (signup_row_range (or_zero (signupRowId (req_body ?b)))) =
            Some [[''t1'', ''2030-01-01'', ''10am'', ''Ann'', [], ''5551234567'', ''A'', [], ''3'',
                  ''ACTIVE'']]"
    by code_simp
  have nb: "map_option trim (cell [''t1'', ''2030-01-01'', ''10am'', ''Ann'', [], ''5551234567'', ''A'', [], ''3'',
                  ''ACTIVE''] SIGNUPS_PHONE) \<noteq> phone (req_body ?b)"
    by code_simp
  from cancel_unauthorized_no_write[OF m(1) ex_allowed p(1-3) ra]
       cancel_unauthorized_no_write[OF m(2) ex_allowed p(4-6) rb] nb
  show ?thesis
    by (simp add: first_row_def)
qed

section \<open>The loop over the requested slots\<close>

lemma book_slots_passing:
  assumes "\<forall>x\<in>set pre. \<not> slot_fails (ap_phone ap) existing x"
  shows "book_slots ap existing (pre @ rest) a b =
           book_slots ap existing rest (a @ map (slot_signup ap) pre) (b @ map slot_update pre)"
  using assms
proof (induction pre arbitrary: a b)
  case Nil
  then show ?case by simp
next
  case (Cons x pre)
  obtain i vals where x: "x = (i, vals)" by (cases x)
  from Cons.prems obtain r where r: "first_row vals = Some r"
    by (auto simp: slot_fails_def x split: option.splits)
  have ok: "\<not> list_ex (is_duplicate (ap_phone ap) i) existing"
      "\<not> or_zero (parseInt (cell r SLOTS_TAKEN)) \<ge> or_zero (parseInt (cell r SLOTS_CAPACITY))"
    using Cons.prems by (auto simp: slot_fails_def x r)
  have rest: "\<forall>y\<in>set pre. \<not> slot_fails (ap_phone ap) existing y"
    using Cons.prems by simp
  show ?case
    using ok by (simp add: x r Let_def Cons.IH[OF rest] slot_signup_def slot_update_def)
qed

lemma book_slots_all_pass:
  assumes "\<forall>x\<in>set xs. \<not> slot_fails (ap_phone ap) existing x"
  shows "book_slots ap existing xs a b = Inr (a @ map (slot_signup ap) xs, b @ map slot_update xs)"
  using book_slots_passing[OF assms, of "[]" a b] by simp

lemma book_slots_failing_head:
  assumes "slot_fails (ap_phone ap) existing (i, vals)"
  shows "book_slots ap existing ((i, vals) # rest) a b =
           Inl (case first_row vals of
                  None \<Rightarrow> \<lparr>status = 400, json = Error ''Slot data missing.''\<rparr>
                | Some r \<Rightarrow>
                    if list_ex (is_duplicate (ap_phone ap) i) existing
                    then \<lparr>status = 409,
                          json = Error (''Already booked '' @ String_of (cell r SLOTS_LABEL) @ '' on '' @
                                        String_of (cell r SLOTS_DATE) @ ''.'')\<rparr>
                    else \<lparr>status = 409,
                          json = Error (''Slot '' @ String_of (cell r SLOTS_LABEL) @ '' on '' @
                                        String_of (cell r SLOTS_DATE) @ '' is full.'')\<rparr>)"
proof (cases "first_row vals")
  case None
  then show ?thesis by simp
next
  case (Some r)
  show ?thesis
  proof (cases "list_ex (is_duplicate (ap_phone ap) i) existing")
    case True
    then show ?thesis by (simp add: Some Let_def)
  next
    case False
    with assms Some
    have "or_zero (parseInt (cell r SLOTS_TAKEN)) \<ge> or_zero (parseInt (cell r SLOTS_CAPACITY))"
      by (simp add: slot_fails_def)
    with False show ?thesis by (simp add: Some Let_def)
  qed
qed

lemma split_first_failure:
  assumes "\<exists>x\<in>set xs. P x"
  shows "\<exists>pre x post. xs = pre @ x # post \<and> (\<forall>y\<in>set pre. \<not> P y) \<and> P x"
  using split_list_first_prop[OF assms] by blast

lemma book_slots_rejects:
  assumes "\<exists>x\<in>set xs. slot_fails (ap_phone ap) existing x"
  shows "\<exists>r msg. book_slots ap existing xs a b = Inl r \<and> (status r = 400 \<or> status r = 409) \<and>
                 json r = Error msg"
proof -
  from split_first_failure[OF assms] obtain pre x post where
    xs: "xs = pre @ x # post" and pre: "\<forall>y\<in>set pre. \<not> slot_fails (ap_phone ap) existing y"
    and x: "slot_fails (ap_phone ap) existing x" by blast
  obtain i vals where iv: "x = (i, vals)" by (cases x)
  have "book_slots ap existing xs a b =
          book_slots ap existing ((i, vals) # post) (a @ map (slot_signup ap) pre) (b @ map slot_update pre)"
    unfolding xs iv by (rule book_slots_passing[OF pre])
  also note book_slots_failing_head[OF x[unfolded iv]]
  finally have eq: "book_slots ap existing xs a b =
      Inl (case first_row vals of
             None \<Rightarrow> \<lparr>status = 400, json = Error ''Slot data missing.''\<rparr>
           | Some r \<Rightarrow>
               if list_ex (is_duplicate (ap_phone ap) i) existing
               then \<lparr>status = 409,
                     json = Error (''Already booked '' @ String_of (cell r SLOTS_LABEL) @ '' on '' @
                                   String_of (cell r SLOTS_DATE) @ ''.'')\<rparr>
               else \<lparr>status = 409,
                     json = Error (''Slot '' @ String_of (cell r SLOTS_LABEL) @ '' on '' @
                                   String_of (cell r SLOTS_DATE) @ '' is full.'')\<rparr>)" .
  show ?thesis
  proof (cases "first_row vals")
    case None
    then show ?thesis unfolding eq by simp
  next
    case (Some r)
    then show ?thesis unfolding eq by (cases "list_ex (is_duplicate (ap_phone ap) i) existing") simp_all
  qed
qed

lemma book_slots_Inl:
  assumes "book_slots ap existing xs a b = Inl r"
  shows "(status r = 400 \<or> status r = 409) \<and> (\<exists>msg. json r = Error msg) \<and>
         (\<exists>x\<in>set xs. slot_fails (ap_phone ap) existing x)"
proof (cases "\<exists>x\<in>set xs. slot_fails (ap_phone ap) existing x")
  case True
  from book_slots_rejects[OF True, of a b] assms True show ?thesis by auto
next
  case False
  then have "\<forall>x\<in>set xs. \<not> slot_fails (ap_phone ap) existing x" by blast
  from book_slots_all_pass[OF this, of a b] assms show ?thesis by simp
qed



section \<open>Outcomes of a booking and of a cancellation\<close>

lemma post_checked:
  assumes "validateBookingRequest (req_body req) = Inr []"
    and "checkConcurrentBookings (ap_phone (applicant_of e (req_body req))) (activeBookingsMap s)"
    and "values_batchGet (fail_batchGet e) (sheets s)
           (map slot_row_range (requested_ids (req_body req))) = Some slotRanges"
    and "values_get (fail_get_signups e) (sheets s) signups_range = Some existing"
  shows "handle_post e req s =
     (let ap = applicant_of e (req_body req);
          ranges = map slot_row_range (requested_ids (req_body req));
          s1 = s\<lparr>activeBookingsMap := incrementActiveBookings (ap_phone ap) (activeBookingsMap s)\<rparr>;
          released = s1\<lparr>activeBookingsMap := decrementActiveBookings (ap_phone ap) (activeBookingsMap s1)\<rparr>
      in case book_slots ap existing (zip (requested_ids (req_body req)) slotRanges) [] [] of
           Inl r \<Rightarrow> \<lparr>resp = r, after = s1, calls = [ValuesBatchGet ranges, ValuesGet signups_range]\<rparr>
         | Inr (signupRows, updateRequests) \<Rightarrow>
             (case batchUpdate (fail_batchUpdate e) (sheets s)
                     (booking_directives signupRows updateRequests) of
                None \<Rightarrow>
                  reply 500 (Error ''Booking could not be completed.'') released
                    [ValuesBatchGet ranges, ValuesGet signups_range,
                     BatchUpdate (booking_directives signupRows updateRequests)]
              | Some st \<Rightarrow>
                  reply 200 (Message ''Booking successful!'')
                    (released\<lparr>slotCache := invalidateCache, sheets := st\<rparr>)
                    [ValuesBatchGet ranges, ValuesGet signups_range,
                     BatchUpdate (booking_directives signupRows updateRequests)]))"
  using assms by (simp add: handle_post_def Let_def split: sum.splits prod.splits)

lemma post_200:
  assumes "status (resp (handle_post e req s)) = 200"
  shows "\<exists>slotRanges existing signupRows updateRequests st.
           validateBookingRequest (req_body req) = Inr [] \<and>
           checkConcurrentBookings (ap_phone (applicant_of e (req_body req))) (activeBookingsMap s) \<and>
           values_batchGet (fail_batchGet e) (sheets s)
             (map slot_row_range (requested_ids (req_body req))) = Some slotRanges \<and>
           values_get (fail_get_signups e) (sheets s) signups_range = Some existing \<and>
           book_slots (applicant_of e (req_body req)) existing
             (zip (requested_ids (req_body req)) slotRanges) [] [] = Inr (signupRows, updateRequests) \<and>
           batchUpdate (fail_batchUpdate e) (sheets s)
             (booking_directives signupRows updateRequests) = Some st \<and>
           sheets (after (handle_post e req s)) = st \<and>
           slotCache (after (handle_post e req s)) = invalidateCache"
proof -
  from assms obtain errs where v: "validateBookingRequest (req_body req) = Inr errs"
    by (cases "validateBookingRequest (req_body req)") (simp_all add: handle_post_def reply_def)
  from assms have e: "errs = []"
    by (cases "errs = []") (simp_all add: handle_post_def reply_def v)
  let ?ap = "applicant_of e (req_body req)"
  from assms have t: "checkConcurrentBookings (ap_phone ?ap) (activeBookingsMap s)"
    by (cases "checkConcurrentBookings (ap_phone ?ap) (activeBookingsMap s)")
       (simp_all add: handle_post_def reply_def v e Let_def)
  from assms obtain slotRanges where r1: "values_batchGet (fail_batchGet e) (sheets s)
           (map slot_row_range (requested_ids (req_body req))) = Some slotRanges"
    by (cases "values_batchGet (fail_batchGet e) (sheets s)
           (map slot_row_range (requested_ids (req_body req)))")
       (simp_all add: handle_post_def reply_def v e t Let_def)
  from assms obtain existing where r2: "values_get (fail_get_signups e) (sheets s) signups_range = Some existing"
    by (cases "values_get (fail_get_signups e) (sheets s) signups_range")
       (simp_all add: handle_post_def reply_def v e t r1 Let_def)
  note pc = post_checked[OF v[unfolded e] t r1 r2]
  show ?thesis
  proof (cases "book_slots ?ap existing (zip (requested_ids (req_body req)) slotRanges) [] []")
    case (Inl r)
    from book_slots_Inl[OF Inl] assms show ?thesis
      by (simp add: pc Inl Let_def)
  next
    case (Inr p)
    obtain rows ups where p: "p = (rows, ups)" by (cases p)
    from assms obtain st where w: "batchUpdate (fail_batchUpdate e) (sheets s) (booking_directives rows ups) = Some st"
      by (cases "batchUpdate (fail_batchUpdate e) (sheets s) (booking_directives rows ups)")
         (simp_all add: pc Inr p Let_def reply_def)
    show ?thesis
      using v e t r1 r2 Inr p w
      by (simp add: pc Let_def reply_def)
  qed
qed


lemma patch_200:
  assumes "status (resp (handle_patch e req s)) = 200"
  shows "\<exists>tv. or_zero (signupRowId (req_body req)) \<ge> 1 \<and> or_zero (slotRowId (req_body req)) \<ge> 1 \<and>
           values_get (fail_get_slots e) (sheets s)
             (taken_cell_range (or_zero (slotRowId (req_body req)))) = Some tv \<and>
           sheets (after (handle_patch e req s)) =
             (sheets s)\<lparr>Signups := set_cell (Signups (sheets s))
                                     (nat (or_zero (signupRowId (req_body req)) - 1)) 9
                                     (''CANCELLED:'' @ isoNow e),
                        Slots := set_cell (Slots (sheets s))
                                   (nat (or_zero (slotRowId (req_body req)) - 1)) 3
                                   (cell_text (NumberValue (newTaken (currentTaken tv))))\<rparr> \<and>
           slotCache (after (handle_patch e req s)) = invalidateCache"
proof -
  let ?su = "or_zero (signupRowId (req_body req))" and ?sl = "or_zero (slotRowId (req_body req))"
  from assms have p: "\<not> (falsy_id (signupRowId (req_body req)) \<or> falsy_id (slotRowId (req_body req)) \<or>
                        \<not> truthy (phone (req_body req)))"
    by (cases "falsy_id (signupRowId (req_body req)) \<or> falsy_id (slotRowId (req_body req)) \<or>
                        \<not> truthy (phone (req_body req))")
       (simp_all add: handle_patch_def Let_def reply_def)
  from assms p obtain vs where r1: "values_get (fail_get_signups e) (sheets s) (signup_row_range ?su) = Some vs"
    by (cases "values_get (fail_get_signups e) (sheets s) (signup_row_range ?su)")
       (simp_all add: handle_patch_def Let_def reply_def)
  from assms p r1 obtain r where fr: "first_row vs = Some r"
    by (cases "first_row vs") (simp_all add: handle_patch_def Let_def reply_def)
  from assms p r1 fr have ph: "map_option trim (cell r SIGNUPS_PHONE) = phone (req_body req)"
    by (cases "map_option trim (cell r SIGNUPS_PHONE) = phone (req_body req)")
       (simp_all add: handle_patch_def Let_def reply_def)
  from assms p r1 fr ph obtain tv where
    r2: "values_get (fail_get_slots e) (sheets s) (taken_cell_range ?sl) = Some tv"
    by (cases "values_get (fail_get_slots e) (sheets s) (taken_cell_range ?sl)")
       (simp_all add: handle_patch_def Let_def reply_def)
  let ?ds = "cancel_directives (isoNow e) ?su ?sl (newTaken (currentTaken tv))"
  from assms p r1 fr ph r2 obtain st where
    w: "batchUpdate (fail_batchUpdate e) (sheets s) ?ds = Some st"
    by (cases "batchUpdate (fail_batchUpdate e) (sheets s) ?ds")
       (simp_all add: handle_patch_def Let_def reply_def)
  have su: "?su \<ge> 1"
    using values_get_one_row[OF r1[unfolded signup_row_range_def]] by simp
  have sl: "?sl \<ge> 1"
    using values_get_one_row[OF r2[unfolded taken_cell_range_def]] by simp
  have st: "st = (sheets s)\<lparr>Signups := set_cell (Signups (sheets s)) (nat (?su - 1)) 9
                                     (''CANCELLED:'' @ isoNow e),
                        Slots := set_cell (Slots (sheets s)) (nat (?sl - 1)) 3
                                   (cell_text (NumberValue (newTaken (currentTaken tv))))\<rparr>"
    using w su sl
    by (simp add: batchUpdate_def cancel_directives_def apply_directive_def put_sheet_def
                  sheet_of_def cell_text_def split: if_splits)
  have "after (handle_patch e req s) = s\<lparr>slotCache := invalidateCache, sheets := st\<rparr>"
    using p r1 fr ph r2 w by (simp add: handle_patch_def Let_def reply_def)
  with su sl r2 st show ?thesis by simp
qed

lemma handler_200_allowed:
  assumes "req_method req \<noteq> OPTIONS" and "status (resp (handler e req s)) = 200"
  shows "fst (checkRateLimit (now e) (clientIP req) (rateLimitMap s))"
  using assms
  by (cases "checkRateLimit (now e) (clientIP req) (rateLimitMap s)")
     (auto simp: handler_def Let_def reply_def split: if_splits)

lemma getCachedSlots_invalidated: "getCachedSlots t invalidateCache = None"
  by (simp add: getCachedSlots_def invalidateCache_def)

lemma listing_after_invalidation:
  assumes "slotCache s = invalidateCache"
  shows "calls (handle_listing e s) = [ValuesGet slots_range] \<and>
         (\<forall>rows. values_get (fail_get_slots e) (sheets s) slots_range = Some rows \<longrightarrow>
            resp (handle_listing e s) = \<lparr>status = 200, json = Dates (build_listing (upcoming e) rows)\<rparr>)"
  by (cases "values_get (fail_get_slots e) (sheets s) slots_range")
     (simp_all add: handle_listing_def assms getCachedSlots_invalidated reply_def Let_def)

text \<open>
  C9. A booking or a cancellation answered 200 (its write succeeded) leaves the slot cache
  empty. The next listing read, at any time, finds no valid cache entry: its one store call
  is the read of the slot range, and its answer is the listing built from the rows read.
\<close>

theorem write_invalidates_cache:
  assumes "req_method req = POST \<or> req_method req = PATCH"
    and "status (resp (handler e req s)) = 200"
    and "req_method nxt = GET" and "\<not> truthy (query_phone nxt)"
    and "fst (checkRateLimit (now e') (clientIP nxt) (rateLimitMap (after (handler e req s))))"
  shows "slotCache (after (handler e req s)) = invalidateCache \<and>
         getCachedSlots (now e') (slotCache (after (handler e req s))) = None \<and>
         calls (handler e' nxt (after (handler e req s))) = [ValuesGet slots_range] \<and>
         (\<forall>rows. values_get (fail_get_slots e') (sheets (after (handler e req s))) slots_range = Some rows \<longrightarrow>
            resp (handler e' nxt (after (handler e req s))) =
              \<lparr>status = 200, json = Dates (build_listing (upcoming e') rows)\<rparr>)"
proof -
  have al: "fst (checkRateLimit (now e) (clientIP req) (rateLimitMap s))"
    using assms(1,2) by (intro handler_200_allowed[of req e s]) auto
  have inv: "slotCache (after (handler e req s)) = invalidateCache"
  proof (cases "req_method req = POST")
    case True
    from assms(2) post_200[of e req] show ?thesis
      unfolding handler_POST[OF True al] by blast
  next
    case False
    with assms(1) have pa: "req_method req = PATCH" by simp
    from assms(2) patch_200[of e req] show ?thesis
      unfolding handler_PATCH[OF pa al] by blast
  qed
  let ?s' = "after (handler e req s)"
  let ?s'' = "?s'\<lparr>rateLimitMap := snd (checkRateLimit (now e') (clientIP nxt) (rateLimitMap ?s'))\<rparr>"
  have "slotCache ?s'' = invalidateCache" using inv by simp
  from listing_after_invalidation[OF this, of e'] inv show ?thesis
    unfolding handler_listing[OF assms(3,4,5)]
    by (simp add: getCachedSlots_invalidated)
qed

theorem write_invalidates_cache_witness:
  "getCachedSlots (now ex_env) (slotCache ex_cached) \<noteq> None \<and>
   calls (handler ex_env ex_get ex_cached) = [] \<and>
   calls (handler ex_env ex_get
            (after (handler ex_env (ex_book ''5551234567'' (Some [IntegerNumber 5])) ex_cached))) =
     [ValuesGet slots_range] \<and>
   calls (handler ex_env ex_get
            (after (handler ex_env (ex_cancel 2 3 ''5551234567'') ex_cached))) =
     [ValuesGet slots_range]"
proof -
  let ?b = "ex_book ''5551234567'' (Some [IntegerNumber 5])" and ?c = "ex_cancel 2 3 ''5551234567''"
  have c: "getCachedSlots (now ex_env) (slotCache ex_cached) \<noteq> None"
      "calls (handler ex_env ex_get ex_cached) = []"
    by code_simp+
  have m: "req_method ?b = POST \<or> req_method ?b = PATCH" "req_method ?c = POST \<or> req_method ?c = PATCH"
      "req_method ex_get = GET" "\<not> truthy (query_phone ex_get)"
    by (simp_all add: ex_book_def ex_cancel_def ex_get_def ex_request_def truthy_def)
  have ok: "status (resp (handler ex_env ?b ex_cached)) = 200"
      "status (resp (handler ex_env ?c ex_cached)) = 200"
    by code_simp+
  have al: "fst (checkRateLimit (now ex_env) (clientIP ex_get)
                  (rateLimitMap (after (handler ex_env ?b ex_cached))))"
      "fst (checkRateLimit (now ex_env) (clientIP ex_get)
                  (rateLimitMap (after (handler ex_env ?c ex_cached))))"
    by code_simp+
  from write_invalidates_cache[OF m(1) ok(1) m(3,4) al(1)]
       write_invalidates_cache[OF m(2) ok(2) m(3,4) al(2)] c
  show ?thesis by simp
qed


section \<open>Rejected bookings\<close>

lemma post_rejected:
  assumes "validateBookingRequest (req_body req) = Inr []"
    and "checkConcurrentBookings (ap_phone (applicant_of e (req_body req))) (activeBookingsMap s)"
    and "values_batchGet (fail_batchGet e) (sheets s)
           (map slot_row_range (requested_ids (req_body req))) = Some slotRanges"
    and "values_get (fail_get_signups e) (sheets s) signups_range = Some existing"
    and "book_slots (applicant_of e (req_body req)) existing
           (zip (requested_ids (req_body req)) slotRanges) [] [] = Inl r"
  shows "handle_post e req s =
           \<lparr>resp = r,
            after = s\<lparr>activeBookingsMap :=
                        incrementActiveBookings (ap_phone (applicant_of e (req_body req)))
                          (activeBookingsMap s)\<rparr>,
            calls = [ValuesBatchGet (map slot_row_range (requested_ids (req_body req))),
                     ValuesGet signups_range]\<rparr>"
  by (simp add: post_checked[OF assms(1-4)] assms(5) Let_def)





section \<open>The concurrency counter and the validation gate\<close>

lemma active_count_increment:
  "active_count (incrementActiveBookings p m) q = (if q = p then active_count m p + 1 else active_count m q)"
  by (simp add: incrementActiveBookings_def active_count_def)

lemma active_count_release:
  "active_count (decrementActiveBookings p (incrementActiveBookings p m)) q = active_count m q"
  by (simp add: decrementActiveBookings_def incrementActiveBookings_def active_count_def
           split: option.splits)

lemma booking_counter_after:
  assumes "req_method req = POST"
    and "fst (checkRateLimit (now e) (clientIP req) (rateLimitMap s))"
    and "validateBookingRequest (req_body req) = Inr []"
    and "checkConcurrentBookings (ap_phone (applicant_of e (req_body req))) (activeBookingsMap s)"
    and "values_batchGet (fail_batchGet e) (sheets s)
           (map slot_row_range (requested_ids (req_body req))) = Some slotRanges"
    and "values_get (fail_get_signups e) (sheets s) signups_range = Some existing"
  shows "active_count (activeBookingsMap (after (handler e req s))) (ap_phone (applicant_of e (req_body req))) =
           (if \<exists>x\<in>set (zip (requested_ids (req_body req)) slotRanges).
                 slot_fails (ap_phone (applicant_of e (req_body req))) existing x
            then active_count (activeBookingsMap s) (ap_phone (applicant_of e (req_body req))) + 1
            else active_count (activeBookingsMap s) (ap_phone (applicant_of e (req_body req))))"
proof -
  let ?ap = "applicant_of e (req_body req)"
  let ?xs = "zip (requested_ids (req_body req)) slotRanges"
  let ?s0 = "s\<lparr>rateLimitMap := snd (checkRateLimit (now e) (clientIP req) (rateLimitMap s))\<rparr>"
  have h: "handler e req s = handle_post e req ?s0"
    by (rule handler_POST[OF assms(1,2)])
  have pre: "checkConcurrentBookings (ap_phone ?ap) (activeBookingsMap ?s0)"
      "values_batchGet (fail_batchGet e) (sheets ?s0)
           (map slot_row_range (requested_ids (req_body req))) = Some slotRanges"
      "values_get (fail_get_signups e) (sheets ?s0) signups_range = Some existing"
    using assms(4-6) by simp_all
  show ?thesis
  proof (cases "\<exists>x\<in>set ?xs. slot_fails (ap_phone ?ap) existing x")
    case True
    from book_slots_rejects[OF True, of "[]" "[]"] obtain r where
      "book_slots ?ap existing ?xs [] [] = Inl r" by blast
    from post_rejected[OF assms(3) pre this] True show ?thesis
      unfolding h by (simp add: active_count_increment)
  next
    case False
    then have "\<forall>x\<in>set ?xs. \<not> slot_fails (ap_phone ?ap) existing x" by blast
    from book_slots_all_pass[OF this, of "[]" "[]"]
    have "book_slots ?ap existing ?xs [] [] = Inr (map (slot_signup ?ap) ?xs, map slot_update ?xs)"
      by simp
    with False show ?thesis
      unfolding h post_checked[OF assms(3) pre]
      by (simp add: Let_def reply_def active_count_release split: option.splits)
  qed
qed

text \<open>
  C1. The claim fails on the code: the three early returns inside the guarded block (slot
  data missing, already booked, slot full) leave without the decrement that the success
  path and the \<open>catch\<close> block perform. Here a booking of the full slot 3 is answered 409 and
  the counter of the phone, 0 before, is 1 after the handler has returned.
\<close>

theorem booking_conflict_keeps_counter:
  "resp (handler ex_env (ex_book ''5550000000'' (Some [IntegerNumber 3])) ex_server) =
     \<lparr>status = 409, json = Error ''Slot 10am on 2030-01-01 is full.''\<rparr> \<and>
   active_count (activeBookingsMap ex_server) ''5550000000'' = 0 \<and>
   active_count (activeBookingsMap
     (after (handler ex_env (ex_book ''5550000000'' (Some [IntegerNumber 3])) ex_server)))
     ''5550000000'' = 1"
  by code_simp

lemma booking_conflicts_exhaust_throttle:
  "resp (handler ex_env (ex_book ''5550000000'' (Some [IntegerNumber 5]))
     (run (replicate 3 (ex_env, ex_book ''5550000000'' (Some [IntegerNumber 3]))) ex_server)) =
     \<lparr>status = 429, json = Error ''Too many concurrent requests. Try again.''\<rparr>"
  by code_simp

lemma validation_rejects:
  assumes "req_method req = POST"
    and "fst (checkRateLimit (now e) (clientIP req) (rateLimitMap s))"
    and "validateBookingRequest (req_body req) = Inr errors" and "errors \<noteq> []"
  shows "resp (handler e req s) = \<lparr>status = 400, json = Error (join ''; '' errors)\<rparr> \<and>
         calls (handler e req s) = [] \<and>
         activeBookingsMap (after (handler e req s)) = activeBookingsMap s \<and>
         sheets (after (handler e req s)) = sheets s"
  unfolding handler_POST[OF assms(1,2)]
  by (simp add: handle_post_def assms(3,4) reply_def)

lemma validation_errors_iff:
  assumes "slotIds b = Some ids"
  shows "(\<exists>errors. validateBookingRequest b = Inr errors \<and> errors \<noteq> []) \<longleftrightarrow>
           (required_missing (name b) MAX_NAME_LENGTH \<or>
            (case phone b of None \<Rightarrow> True | Some p \<Rightarrow> trim p = []) \<or> \<not> isValidPhone (phone b) \<or>
            (truthy (email b) \<and> \<not> isValidEmail (email b)) \<or>
            required_missing (category b) MAX_CATEGORY_LENGTH \<or>
            (case notes_text b of None \<Rightarrow> False | Some n \<Rightarrow> n \<noteq> [] \<and> length n > MAX_NOTES_LENGTH) \<or>
            ids = [] \<or> length ids > MAX_SLOTS_PER_BOOKING \<or> \<not> list_all valid_id ids)"
  by (simp add: validateBookingRequest_def assms Let_def)

text \<open>
  C5. The claim fails on the code where \<open>slotIds\<close> is missing: the last test of
  \<open>validateBookingRequest\<close> calls \<open>body.slotIds.every\<close> on the missing value, the call
  throws, and the handler's outer \<open>catch\<close> answers 500, not 400. (With an array under
  \<open>slotIds\<close> every listed failure is answered 400 before the throttle and the store.)
\<close>

theorem missing_slotIds_unexpected_error:
  "validateBookingRequest (req_body (ex_book ''5551234567'' None)) = Inl TypeError \<and>
   resp (handler ex_env (ex_book ''5551234567'' None) ex_server) =
     \<lparr>status = 500, json = Error ''Unexpected server error.''\<rparr>"
  by code_simp



section \<open>Numbers written and read back\<close>

lemma digit_val_digit_char: "d < 10 \<Longrightarrow> digit_val (digit_char d) = Some d"
  by (simp add: digit_val_def digit_char_def Let_def)

lemma digit_char_plain:
  "d < 10 \<Longrightarrow> \<not> is_space (digit_char d) \<and> digit_char d \<noteq> CHR ''-'' \<and> digit_char d \<noteq> CHR ''+'' \<and>
     digit_char d \<noteq> CHR ''x'' \<and> digit_char d \<noteq> CHR ''X''"
  by (auto simp: is_space_def digit_char_def dest: arg_cong[where f = "of_char :: char \<Rightarrow> nat"])

lemma digits_value_snoc:
  "digits_value r (ds @ [c]) = digits_value r ds * r + (case digit_val c of None \<Rightarrow> 0 | Some d \<Rightarrow> d)"
  by (simp add: digits_value_def)

lemma show_nat_digits: "\<forall>c\<in>set (show_nat n). \<exists>d<10. c = digit_char d"
proof (induction n rule: show_nat.induct)
  case (1 n)
  show ?case
  proof (cases "n < 10")
    case True
    then show ?thesis by (subst show_nat.simps) auto
  next
    case False
    have "\<exists>d<10. digit_char (n mod 10) = digit_char d"
      by (rule exI[of _ "n mod 10"]) simp
    with 1[OF False] False show ?thesis
      by (subst show_nat.simps) auto
  qed
qed

lemma show_nat_value: "digits_value 10 (show_nat n) = n"
proof (induction n rule: show_nat.induct)
  case (1 n)
  show ?case
  proof (cases "n < 10")
    case True
    then show ?thesis
      by (subst show_nat.simps) (simp add: digits_value_def digit_val_digit_char)
  next
    case False
    have "n mod 10 < 10" by simp
    then have "digit_val (digit_char (n mod 10)) = Some (n mod 10)"
      by (rule digit_val_digit_char)
    with 1[OF False] False show ?thesis
      by (subst show_nat.simps) (simp add: digits_value_snoc)
  qed
qed

lemma show_nat_nonempty: "show_nat n \<noteq> []"
  by (subst show_nat.simps) simp

lemma parseInt_str_digits:
  assumes "ds \<noteq> []" and "\<forall>c\<in>set ds. \<exists>d<10. c = digit_char d"
  shows "parseInt_str ds = Some (int (digits_value 10 ds))"
    and "parseInt_str (CHR ''-'' # ds) = Some (- int (digits_value 10 ds))"
proof -
  obtain c cs where ds: "ds = c # cs" using assms(1) by (cases ds) auto
  from assms(2) obtain d where d: "d < 10" "c = digit_char d" by (auto simp: ds)
  note pl = digit_char_plain[OF d(1), folded d(2)]
  have nosp: "dropWhile is_space ds = ds" using pl by (simp add: ds)
  have sign: "parse_sign ds = (1, ds)" using pl by (simp add: parse_sign_def ds)
  have cs_ok: "cs = [] \<or> (hd cs \<noteq> CHR ''x'' \<and> hd cs \<noteq> CHR ''X'')"
  proof (cases cs)
    case Nil then show ?thesis by simp
  next
    case (Cons c' cs')
    with assms(2) obtain d' where "d' < 10" "c' = digit_char d'" by (auto simp: ds)
    with digit_char_plain[of d'] Cons show ?thesis by simp
  qed
  have radix: "parse_radix ds = (10, ds)"
    using cs_ok by (cases cs) (auto simp: parse_radix_def ds)
  have alld: "\<forall>c\<in>set ds. is_radix_digit 10 c"
    using assms(2) by (auto simp: is_radix_digit_def digit_val_digit_char)
  then have tw: "takeWhile (is_radix_digit 10) ds = ds"
    by (simp add: takeWhile_eq_all_conv)
  show "parseInt_str ds = Some (int (digits_value 10 ds))"
    using assms(1) by (simp add: parseInt_str_def nosp sign radix tw)
  have "\<not> is_space CHR ''-''" by (simp add: is_space_def)
  then have "dropWhile is_space (CHR ''-'' # ds) = CHR ''-'' # ds" by simp
  moreover have "parse_sign (CHR ''-'' # ds) = (- 1, ds)" by (simp add: parse_sign_def)
  ultimately show "parseInt_str (CHR ''-'' # ds) = Some (- int (digits_value 10 ds))"
    using assms(1) by (simp add: parseInt_str_def radix tw)
qed

lemma parseInt_String_int: "parseInt_str (String_int n) = Some n"
  using parseInt_str_digits[OF show_nat_nonempty show_nat_digits]
  by (simp add: String_int_def show_nat_value)

lemma parseInt_str_empty: "parseInt_str [] = None"
  by (simp add: parseInt_str_def parse_sign_def parse_radix_def)

lemma parseInt_undefined: "parseInt None = None"
  by code_simp



section \<open>Reading cells through a range\<close>

lemma parseInt_cell: "parseInt (cell r c) = parseInt_str (text_of r c)"
  by (simp add: cell_def text_of_def parseInt_undefined parseInt_str_empty)
     (simp add: parseInt_def String_of_def)

lemma text_of_append_blank: "text_of (xs @ replicate k []) c = text_of xs c"
  by (simp add: text_of_def nth_append)

lemma trim_row_decomp: "\<exists>k. r = trim_row r @ replicate k []"
proof -
  let ?P = "\<lambda>c::string. c = []"
  have "rev r = takeWhile ?P (rev r) @ dropWhile ?P (rev r)" by simp
  then have "r = rev (dropWhile ?P (rev r)) @ rev (takeWhile ?P (rev r))"
    by (metis rev_append rev_rev_ident)
  moreover have "\<forall>x\<in>set (rev (takeWhile ?P (rev r))). x = []"
    by (auto dest: set_takeWhileD)
  then have "replicate (length (rev (takeWhile ?P (rev r)))) [] = rev (takeWhile ?P (rev r))"
    by (rule replicate_length_same)
  ultimately show ?thesis unfolding trim_row_def by metis
qed

lemma text_of_trim_row: "text_of (trim_row r) c = text_of r c"
proof -
  obtain k where "r = trim_row r @ replicate k []" using trim_row_decomp by blast
  then have "text_of r c = text_of (trim_row r @ replicate k []) c" by simp
  then show ?thesis by (simp add: text_of_append_blank)
qed

lemma trim_row_empty_iff: "trim_row r = [] \<longleftrightarrow> (\<forall>c. text_of r c = [])"
proof
  assume "trim_row r = []"
  then show "\<forall>c. text_of r c = []"
    using text_of_trim_row[of r] by (simp add: text_of_def)
next
  assume a: "\<forall>c. text_of r c = []"
  have "\<forall>x\<in>set (rev r). x = []"
  proof
    fix x assume "x \<in> set (rev r)"
    then obtain i where "i < length r" "r ! i = x" by (auto simp: in_set_conv_nth)
    with a[rule_format, of i] show "x = []" by (simp add: text_of_def)
  qed
  then have "dropWhile (\<lambda>c. c = []) (rev r) = []" by simp
  then show "trim_row r = []" by (simp add: trim_row_def)
qed

lemma text_of_cols: "text_of (cols c0 c1 r) c = (if c0 + c \<le> c1 then text_of r (c0 + c) else [])"
  by (auto simp: cols_def text_of_trim_row) (auto simp: text_of_def)

lemma cell_at_text_of: "cell_at sh k c = (if k < length sh then text_of (sh ! k) c else [])"
  by (simp add: cell_at_def text_of_def)

lemma row_taken_cols: "3 \<le> c1 \<Longrightarrow> row_taken (cols 0 c1 r) = row_taken r"
  by (simp add: row_taken_def parseInt_cell text_of_cols SLOTS_TAKEN_def)

lemma row_capacity_cols: "2 \<le> c1 \<Longrightarrow> row_capacity (cols 0 c1 r) = row_capacity r"
  by (simp add: row_capacity_def parseInt_cell text_of_cols SLOTS_CAPACITY_def numeral_2_eq_2)



section \<open>The capacity invariant\<close>

lemma row_taken_at: "k < length sh \<Longrightarrow> row_taken (sh ! k) = taken_at sh k"
  by (simp add: row_taken_def taken_at_def parseInt_cell cell_at_text_of)

lemma row_capacity_at: "k < length sh \<Longrightarrow> row_capacity (sh ! k) = capacity_at sh k"
  by (simp add: row_capacity_def capacity_at_def parseInt_cell cell_at_text_of)

lemma beyond_sheet: "length sh \<le> k \<Longrightarrow> taken_at sh k = 0 \<and> capacity_at sh k = 0"
  by (simp add: taken_at_def capacity_at_def cell_at_def parseInt_str_empty or_zero_def)

lemma slots_invariant_iff:
  "slots_invariant st \<longleftrightarrow>
     (\<forall>k. 0 \<le> taken_at (Slots st) k \<and> taken_at (Slots st) k \<le> capacity_at (Slots st) k)"
proof
  assume inv: "slots_invariant st"
  show "\<forall>k. 0 \<le> taken_at (Slots st) k \<and> taken_at (Slots st) k \<le> capacity_at (Slots st) k"
  proof
    fix k
    show "0 \<le> taken_at (Slots st) k \<and> taken_at (Slots st) k \<le> capacity_at (Slots st) k"
    proof (cases "k < length (Slots st)")
      case True
      then have "Slots st ! k \<in> set (Slots st)" by simp
      with inv have "0 \<le> row_taken (Slots st ! k) \<and> row_taken (Slots st ! k) \<le> row_capacity (Slots st ! k)"
        unfolding slots_invariant_def by blast
      then show ?thesis by (simp add: row_taken_at[OF True] row_capacity_at[OF True])
    next
      case False
      then show ?thesis using beyond_sheet[of "Slots st" k] by simp
    qed
  qed
next
  assume a: "\<forall>k. 0 \<le> taken_at (Slots st) k \<and> taken_at (Slots st) k \<le> capacity_at (Slots st) k"
  show "slots_invariant st"
    unfolding slots_invariant_def
  proof
    fix r assume "r \<in> set (Slots st)"
    then obtain k where k: "k < length (Slots st)" "Slots st ! k = r"
      by (auto simp: in_set_conv_nth)
    from a[rule_format, of k] show "0 \<le> row_taken r \<and> row_taken r \<le> row_capacity r"
      by (simp add: row_taken_at[OF k(1), symmetric] row_capacity_at[OF k(1), symmetric] k(2))
  qed
qed

lemma capacity_at_set_taken: "capacity_at (set_cell sh j 3 v) k = capacity_at sh k"
  by (simp add: capacity_at_def cell_at_set_cell SLOTS_CAPACITY_def)

lemma taken_at_set_taken:
  "taken_at (set_cell sh j 3 v) k = (if k = j then or_zero (parseInt_str v) else taken_at sh k)"
  by (simp add: taken_at_def cell_at_set_cell SLOTS_TAKEN_def)

lemma set_taken_keeps_invariant:
  assumes "\<forall>k. 0 \<le> taken_at sh k \<and> taken_at sh k \<le> capacity_at sh k"
    and "0 \<le> or_zero (parseInt_str v)" and "or_zero (parseInt_str v) \<le> capacity_at sh j"
  shows "\<forall>k. 0 \<le> taken_at (set_cell sh j 3 v) k \<and>
             taken_at (set_cell sh j 3 v) k \<le> capacity_at (set_cell sh j 3 v) k"
  using assms by (simp add: capacity_at_set_taken taken_at_set_taken)

lemma apply_updates:
  assumes "apply_directives st
             (map (\<lambda>(i, t). UpdateCells SlotsSheet (i - 1) 3 (NumberValue (Some t))) ups) = Some st'"
  shows "Signups st' = Signups st \<and>
         Slots st' = foldl (\<lambda>sh (i, t). set_cell sh (nat (i - 1)) 3 (String_int t)) (Slots st) ups"
  using assms
proof (induction ups arbitrary: st)
  case Nil
  then show ?case by simp
next
  case (Cons u ups)
  obtain i t where u: "u = (i, t)" by (cases u)
  from Cons.prems have ge: "\<not> i - 1 < 0"
    by (auto simp: u apply_directive_def split: if_splits)
  let ?st1 = "st\<lparr>Slots := set_cell (Slots st) (nat (i - 1)) 3 (String_int t)\<rparr>"
  from Cons.prems ge have "apply_directives ?st1
      (map (\<lambda>(i, t). UpdateCells SlotsSheet (i - 1) 3 (NumberValue (Some t))) ups) = Some st'"
    by (simp add: u apply_directive_def put_sheet_def sheet_of_def cell_text_def)
  from Cons.IH[OF this] show ?case by (simp add: u)
qed

lemma booking_write:
  assumes "batchUpdate f st (booking_directives rows ups) = Some st'"
  shows "Signups st' = Signups st @ rows \<and>
         Slots st' = foldl (\<lambda>sh (i, t). set_cell sh (nat (i - 1)) 3 (String_int t)) (Slots st) ups"
proof -
  from assms have "apply_directives (st\<lparr>Signups := Signups st @ rows\<rparr>)
      (map (\<lambda>(i, t). UpdateCells SlotsSheet (i - 1) 3 (NumberValue (Some t))) ups) = Some st'"
    by (simp add: batchUpdate_def booking_directives_def apply_directive_def put_sheet_def
                  sheet_of_def split: if_splits)
  from apply_updates[OF this] show ?thesis by simp
qed

lemma fold_updates_invariant:
  assumes "\<forall>k. 0 \<le> taken_at sh k \<and> taken_at sh k \<le> capacity_at sh k"
    and "\<forall>u\<in>set ups. 0 \<le> snd u \<and> snd u \<le> capacity_at sh (nat (fst u - 1))"
  shows "\<forall>k. 0 \<le> taken_at (foldl (\<lambda>sh (i, t). set_cell sh (nat (i - 1)) 3 (String_int t)) sh ups) k \<and>
             taken_at (foldl (\<lambda>sh (i, t). set_cell sh (nat (i - 1)) 3 (String_int t)) sh ups) k
               \<le> capacity_at (foldl (\<lambda>sh (i, t). set_cell sh (nat (i - 1)) 3 (String_int t)) sh ups) k"
  using assms
proof (induction ups arbitrary: sh)
  case Nil
  then show ?case by simp
next
  case (Cons u ups)
  obtain i t where u: "u = (i, t)" by (cases u)
  let ?sh1 = "set_cell sh (nat (i - 1)) 3 (String_int t)"
  have t: "0 \<le> t" "t \<le> capacity_at sh (nat (i - 1))"
    using Cons.prems(2) by (simp_all add: u)
  have inv1: "\<forall>k. 0 \<le> taken_at ?sh1 k \<and> taken_at ?sh1 k \<le> capacity_at ?sh1 k"
    by (rule set_taken_keeps_invariant[OF Cons.prems(1)])
       (simp_all add: parseInt_String_int or_zero_def t)
  have rest: "\<forall>u\<in>set ups. 0 \<le> snd u \<and> snd u \<le> capacity_at ?sh1 (nat (fst u - 1))"
    using Cons.prems(2) by (simp add: capacity_at_set_taken)
  from Cons.IH[OF inv1 rest] show ?case by (simp add: u)
qed

lemma read_all_zip:
  assumes "read_all st (map f ids) = Some vs" and "(i, v) \<in> set (zip ids vs)"
  shows "read_range st (f i) = Some v"
  using assms
proof (induction ids arbitrary: vs)
  case Nil
  then show ?case by simp
next
  case (Cons a ids)
  from Cons.prems(1) obtain v0 vs0 where
    p: "read_range st (f a) = Some v0" "read_all st (map f ids) = Some vs0" "vs = v0 # vs0"
    by (auto split: option.splits)
  from Cons.prems(2) p(3) have "(i, v) = (a, v0) \<or> (i, v) \<in> set (zip ids vs0)" by simp
  then show ?case
  proof
    assume "(i, v) = (a, v0)" with p(1) show ?thesis by simp
  next
    assume "(i, v) \<in> set (zip ids vs0)"
    from Cons.IH[OF p(2) this] show ?thesis .
  qed
qed


lemma passing_slot_update:
  assumes "read_range st (slot_row_range i) = Some vals"
    and "\<not> slot_fails p existing (i, vals)"
  shows "slot_update (i, vals) = (i, taken_at (Slots st) (nat (i - 1)) + 1) \<and>
         taken_at (Slots st) (nat (i - 1)) < capacity_at (Slots st) (nat (i - 1))"
proof -
  let ?k = "nat (i - 1)" and ?sh = "Slots st"
  from assms(2) obtain r where r: "first_row vals = Some r"
    by (auto simp: slot_fails_def split: option.splits)
  from assms(1) r have k: "?k < length ?sh" and rr: "r = cols 0 3 (?sh ! ?k)"
    by (auto simp: slot_row_range_def read_one_row sheet_of_def first_row_def split: if_splits)
  have t: "or_zero (parseInt (cell r SLOTS_TAKEN)) = taken_at ?sh ?k"
    using row_taken_cols[of 3 "?sh ! ?k"] row_taken_at[OF k] by (simp add: rr row_taken_def)
  have c: "or_zero (parseInt (cell r SLOTS_CAPACITY)) = capacity_at ?sh ?k"
    using row_capacity_cols[of 3 "?sh ! ?k"] row_capacity_at[OF k] by (simp add: rr row_capacity_def)
  from assms(2) have "\<not> or_zero (parseInt (cell r SLOTS_CAPACITY)) \<le> or_zero (parseInt (cell r SLOTS_TAKEN))"
    by (simp add: slot_fails_def r)
  then show ?thesis
    by (simp add: slot_update_def r t c)
qed

lemma currentTaken_read:
  assumes "read_range st (taken_cell_range sl) = Some tv"
  shows "currentTaken tv =
           (if cell_at (Slots st) (nat (sl - 1)) 3 = [] then Some 0
            else parseInt_str (cell_at (Slots st) (nat (sl - 1)) 3))"
proof -
  let ?k = "nat (sl - 1)" and ?sh = "Slots st"
  let ?r = "cols 3 3 (?sh ! ?k)"
  have tx: "text_of ?r c = (if c = 0 then text_of (?sh ! ?k) 3 else [])" for c
    by (simp add: text_of_cols)
  have "?r = [] \<longleftrightarrow> (\<forall>c. text_of ?r c = [])"
    unfolding cols_def using trim_row_empty_iff text_of_trim_row by simp
  then have emp: "?r = [] \<longleftrightarrow> text_of (?sh ! ?k) 3 = []"
    by (simp add: tx)
  show ?thesis
  proof (cases "?k < length ?sh \<and> ?r \<noteq> []")
    case True
    then have tv: "tv = [?r]"
      using assms by (auto simp: taken_cell_range_def read_one_row sheet_of_def split: if_splits)
    from True have ne: "text_of (?sh ! ?k) 3 \<noteq> []" using emp by simp
    have c0: "cell ?r 0 = Some (text_of (?sh ! ?k) 3)"
      using True tx[of 0] by (simp add: cell_def text_of_def)
    show ?thesis
      using True ne
      by (simp add: currentTaken_def tv first_row_def c0 truthy_def cell_at_text_of
                    parseInt_def String_of_def)
  next
    case False
    then have tv: "tv = []"
      using assms by (auto simp: taken_cell_range_def read_one_row sheet_of_def split: if_splits)
    from False have "cell_at ?sh ?k 3 = []"
      using emp by (auto simp: cell_at_text_of)
    then show ?thesis
      by (simp add: currentTaken_def tv first_row_def truthy_def)
  qed
qed

lemma cancel_value_in_range:
  assumes "read_range st (taken_cell_range sl) = Some tv"
    and "\<forall>k. 0 \<le> taken_at (Slots st) k \<and> taken_at (Slots st) k \<le> capacity_at (Slots st) k"
  shows "0 \<le> or_zero (parseInt_str (cell_text (NumberValue (newTaken (currentTaken tv))))) \<and>
         or_zero (parseInt_str (cell_text (NumberValue (newTaken (currentTaken tv)))))
           \<le> capacity_at (Slots st) (nat (sl - 1))"
proof -
  let ?k = "nat (sl - 1)"
  let ?x = "cell_at (Slots st) ?k 3"
  from assms(2) have b: "0 \<le> taken_at (Slots st) ?k" "taken_at (Slots st) ?k \<le> capacity_at (Slots st) ?k"
    by simp_all
  note ct = currentTaken_read[OF assms(1)]
  show ?thesis
  proof (cases "currentTaken tv")
    case None
    then show ?thesis using b
      by (simp add: newTaken_def cell_text_def parseInt_str_empty or_zero_def)
  next
    case (Some n)
    have v: "or_zero (parseInt_str (cell_text (NumberValue (newTaken (currentTaken tv))))) = max 0 (n - 1)"
      by (simp add: Some newTaken_def cell_text_def parseInt_String_int or_zero_def)
    have "n = 0 \<or> n = taken_at (Slots st) ?k"
    proof (cases "?x = []")
      case True
      with ct Some show ?thesis by simp
    next
      case False
      with ct Some have "parseInt_str ?x = Some n" by simp
      then show ?thesis by (simp add: taken_at_def SLOTS_TAKEN_def or_zero_def)
    qed
    with b show ?thesis unfolding v by auto
  qed
qed


lemma post_unchanged:
  assumes "status (resp (handle_post e req s)) \<noteq> 200"
  shows "sheets (after (handle_post e req s)) = sheets s"
  using assms
  by (simp add: handle_post_def Let_def reply_def
           split: sum.splits option.splits prod.splits if_splits)

lemma patch_unchanged:
  assumes "status (resp (handle_patch e req s)) \<noteq> 200"
  shows "sheets (after (handle_patch e req s)) = sheets s"
  using assms
  by (auto simp: handle_patch_def Let_def reply_def split: option.splits if_splits)

lemma lookup_unchanged: "sheets (after (handle_lookup e req s)) = sheets s"
  by (simp add: handle_lookup_def Let_def reply_def split: option.splits)

lemma listing_unchanged: "sheets (after (handle_listing e s)) = sheets s"
  by (simp add: handle_listing_def Let_def reply_def split: option.splits)

lemma post_keeps_invariant:
  assumes "slots_invariant (sheets s)"
  shows "slots_invariant (sheets (after (handle_post e req s)))"
proof (cases "status (resp (handle_post e req s)) = 200")
  case False
  then show ?thesis using assms by (simp add: post_unchanged)
next
  case True
  let ?ap = "applicant_of e (req_body req)"
  let ?ids = "requested_ids (req_body req)"
  from post_200[OF True] obtain slotRanges existing signupRows updateRequests st where
    r1: "values_batchGet (fail_batchGet e) (sheets s) (map slot_row_range ?ids) = Some slotRanges"
    and bs: "book_slots ?ap existing (zip ?ids slotRanges) [] [] = Inr (signupRows, updateRequests)"
    and w: "batchUpdate (fail_batchUpdate e) (sheets s)
              (booking_directives signupRows updateRequests) = Some st"
    and st: "sheets (after (handle_post e req s)) = st"
    by blast
  have pass: "\<forall>x\<in>set (zip ?ids slotRanges). \<not> slot_fails (ap_phone ?ap) existing x"
  proof (rule ccontr)
    assume "\<not> ?thesis"
    then have "\<exists>x\<in>set (zip ?ids slotRanges). slot_fails (ap_phone ?ap) existing x" by blast
    from book_slots_rejects[OF this, of "[]" "[]"] bs show False by auto
  qed
  from book_slots_all_pass[OF pass, of "[]" "[]"] bs
  have ups: "updateRequests = map slot_update (zip ?ids slotRanges)" by simp
  from r1 have ra: "read_all (sheets s) (map slot_row_range ?ids) = Some slotRanges"
    by (simp add: values_batchGet_def split: if_splits)
  have inv: "\<forall>k. 0 \<le> taken_at (Slots (sheets s)) k \<and>
                 taken_at (Slots (sheets s)) k \<le> capacity_at (Slots (sheets s)) k"
    using assms by (simp add: slots_invariant_iff)
  have "\<forall>u\<in>set updateRequests. 0 \<le> snd u \<and> snd u \<le> capacity_at (Slots (sheets s)) (nat (fst u - 1))"
  proof
    fix u assume "u \<in> set updateRequests"
    then obtain x where x: "x \<in> set (zip ?ids slotRanges)" "u = slot_update x"
      by (auto simp: ups)
    obtain i vals where iv: "x = (i, vals)" by (cases x)
    from read_all_zip[OF ra x(1)[unfolded iv]] pass x(1)
    have "slot_update (i, vals) = (i, taken_at (Slots (sheets s)) (nat (i - 1)) + 1) \<and>
          taken_at (Slots (sheets s)) (nat (i - 1)) < capacity_at (Slots (sheets s)) (nat (i - 1))"
      by (intro passing_slot_update) (auto simp: iv)
    with inv[rule_format, of "nat (i - 1)"]
    show "0 \<le> snd u \<and> snd u \<le> capacity_at (Slots (sheets s)) (nat (fst u - 1))"
      by (simp add: x(2) iv)
  qed
  from fold_updates_invariant[OF inv this] booking_write[OF w]
  show ?thesis
    by (simp add: st slots_invariant_iff)
qed

lemma patch_keeps_invariant:
  assumes "slots_invariant (sheets s)"
  shows "slots_invariant (sheets (after (handle_patch e req s)))"
proof (cases "status (resp (handle_patch e req s)) = 200")
  case False
  then show ?thesis using assms by (simp add: patch_unchanged)
next
  case True
  let ?sl = "or_zero (slotRowId (req_body req))"
  from patch_200[OF True] obtain tv where
    r: "values_get (fail_get_slots e) (sheets s) (taken_cell_range ?sl) = Some tv"
    and st: "Slots (sheets (after (handle_patch e req s))) =
               set_cell (Slots (sheets s)) (nat (?sl - 1)) 3
                 (cell_text (NumberValue (newTaken (currentTaken tv))))"
    by auto
  from r have rr: "read_range (sheets s) (taken_cell_range ?sl) = Some tv"
    by (simp add: values_get_def split: if_splits)
  have inv: "\<forall>k. 0 \<le> taken_at (Slots (sheets s)) k \<and>
                 taken_at (Slots (sheets s)) k \<le> capacity_at (Slots (sheets s)) k"
    using assms by (simp add: slots_invariant_iff)
  from cancel_value_in_range[OF rr inv]
  have "\<forall>k. 0 \<le> taken_at (Slots (sheets (after (handle_patch e req s)))) k \<and>
            taken_at (Slots (sheets (after (handle_patch e req s)))) k
              \<le> capacity_at (Slots (sheets (after (handle_patch e req s)))) k"
    unfolding st by (intro set_taken_keeps_invariant[OF inv]) simp_all
  then show ?thesis by (simp add: slots_invariant_iff)
qed

lemma handler_keeps_invariant:
  assumes "slots_invariant (sheets s)"
  shows "slots_invariant (sheets (after (handler e req s)))"
proof -
  obtain ok m where c: "checkRateLimit (now e) (clientIP req) (rateLimitMap s) = (ok, m)"
    by (cases "checkRateLimit (now e) (clientIP req) (rateLimitMap s)")
  have s0: "slots_invariant (sheets (s\<lparr>rateLimitMap := m\<rparr>))" using assms by simp
  show ?thesis
    using assms post_keeps_invariant[OF s0, of e req] patch_keeps_invariant[OF s0, of e req]
    by (cases "req_method req")
       (simp_all add: handler_def c Let_def reply_def lookup_unchanged listing_unchanged)
qed

text \<open>
  C3. If every row of the Slots sheet satisfies \<open>0 \<le> taken \<le> capacity\<close>, it still does
  after any sequence of requests handled one after the other, whatever they are and
  whichever of their store calls fail: a booking writes \<open>taken + 1\<close> only for a slot it
  has read with \<open>taken < capacity\<close>, a cancellation writes \<open>max(0, taken - 1)\<close>, no other
  path writes, and no path writes a capacity.
\<close>

theorem taken_within_capacity:
  assumes "slots_invariant (sheets s)"
  shows "slots_invariant (sheets (run rs s))"
  using assms
proof (induction rs arbitrary: s)
  case Nil
  then show ?case by simp
next
  case (Cons a rs)
  obtain e req where a: "a = (e, req)" by (cases a)
  from Cons.IH[OF handler_keeps_invariant[OF Cons.prems, of e req]]
  show ?case by (simp add: a)
qed

theorem taken_within_capacity_witness:
  "slots_invariant (sheets ex_server) \<and>
   slots_invariant (sheets (run [(ex_env, ex_book ''5550000000'' (Some [IntegerNumber 5, IntegerNumber 2])),
                                 (ex_env, ex_book ''5550000001'' (Some [IntegerNumber 5])),
                                 (ex_env, ex_book ''5550000002'' (Some [IntegerNumber 5])),
                                 (ex_env, ex_cancel 2 3 ''5551234567''),
                                 (ex_env, ex_cancel 2 3 ''5551234567''),
                                 (ex_env, ex_cancel 2 3 ''5551234567'')] ex_server)) \<and>
   Slots (sheets (run [(ex_env, ex_book ''5550000000'' (Some [IntegerNumber 5, IntegerNumber 2])),
                       (ex_env, ex_book ''5550000001'' (Some [IntegerNumber 5])),
                       (ex_env, ex_book ''5550000002'' (Some [IntegerNumber 5])),
                       (ex_env, ex_cancel 2 3 ''5551234567''),
                       (ex_env, ex_cancel 2 3 ''5551234567''),
                       (ex_env, ex_cancel 2 3 ''5551234567'')] ex_server)) =
     [[''Date'', ''Label'', ''Capacity'', ''Taken'', ''Available''],
      [''2030-01-01'', ''9am'', ''3'', ''2'', ''2''],
      [''2030-01-01'', ''10am'', ''2'', ''0'', ''0''],
      [],
      [''2030-01-02'', ''9am'', ''3'', ''3'', ''2'']]"
proof -
  have h: "slots_invariant (sheets ex_server)"
    by code_simp
  have v: "Slots (sheets (run [(ex_env, ex_book ''5550000000'' (Some [IntegerNumber 5, IntegerNumber 2])),
                       (ex_env, ex_book ''5550000001'' (Some [IntegerNumber 5])),
                       (ex_env, ex_book ''5550000002'' (Some [IntegerNumber 5])),
                       (ex_env, ex_cancel 2 3 ''5551234567''),
                       (ex_env, ex_cancel 2 3 ''5551234567''),
                       (ex_env, ex_cancel 2 3 ''5551234567'')] ex_server)) =
     [[''Date'', ''Label'', ''Capacity'', ''Taken'', ''Available''],
      [''2030-01-01'', ''9am'', ''3'', ''2'', ''2''],
      [''2030-01-01'', ''10am'', ''2'', ''0'', ''0''],
      [],
      [''2030-01-02'', ''9am'', ''3'', ''3'', ''2'']]"
    by code_simp
  from taken_within_capacity[OF h] h v show ?thesis by blast
qed


section \<open>What a booking writes, and what the listing reads\<close>









lemma trim_rows_decomp: "\<exists>k. rs = trim_rows rs @ replicate k []"
proof -
  let ?P = "\<lambda>c::row. c = []"
  have "rev rs = takeWhile ?P (rev rs) @ dropWhile ?P (rev rs)" by simp
  then have "rs = rev (dropWhile ?P (rev rs)) @ rev (takeWhile ?P (rev rs))"
    by (metis rev_append rev_rev_ident)
  moreover have "\<forall>x\<in>set (rev (takeWhile ?P (rev rs))). x = []"
    by (auto dest: set_takeWhileD)
  then have "replicate (length (rev (takeWhile ?P (rev rs)))) [] = rev (takeWhile ?P (rev rs))"
    by (rule replicate_length_same)
  ultimately show ?thesis unfolding trim_rows_def by metis
qed






lemma text_of_cols0: "c \<le> c1 \<Longrightarrow> text_of (cols 0 c1 r) c = text_of r c"
  by (simp add: text_of_cols)















section \<open>The duplicate-booking invariant\<close>

lemma last_dropWhile: "dropWhile P xs \<noteq> [] \<Longrightarrow> last (dropWhile P xs) = last xs"
  by (induction xs) (auto split: if_splits)

lemma trim_ends:
  "trim s = [] \<or> (\<not> is_space (hd (trim s)) \<and> \<not> is_space (last (trim s)))"
proof (cases "trim s = []")
  case True then show ?thesis by simp
next
  case False
  let ?u = "dropWhile is_space s"
  let ?w = "dropWhile is_space (rev ?u)"
  have t: "trim s = rev ?w" by (simp add: trim_def)
  from False have w: "?w \<noteq> []" by (simp add: t)
  have u: "?u \<noteq> []"
  proof
    assume a: "?u = []"
    have "?w = []" unfolding a by simp
    with w show False by simp
  qed
  have "\<not> is_space (hd ?w)" using w by (rule hd_dropWhile)
  then have l: "\<not> is_space (last (trim s))" using w by (simp add: t last_rev)
  have "last ?w = last (rev ?u)" using w by (rule last_dropWhile)
  also have "\<dots> = hd ?u" using u by (simp add: last_rev)
  finally have "hd (trim s) = hd ?u" using w by (simp add: t hd_rev)
  moreover have "\<not> is_space (hd ?u)" using u by (rule hd_dropWhile)
  ultimately show ?thesis using l by simp
qed

lemma trim_fixed:
  assumes "s = [] \<or> (\<not> is_space (hd s) \<and> \<not> is_space (last s))"
  shows "trim s = s"
proof (cases "s = []")
  case True then show ?thesis by (simp add: trim_def)
next
  case False
  with assms have h: "\<not> is_space (hd s)" "\<not> is_space (last s)" by simp_all
  have a: "dropWhile is_space s = s" using False h(1) by (cases s) simp_all
  have "rev s \<noteq> []" using False by simp
  moreover have "\<not> is_space (hd (rev s))" using False h(2) by (simp add: hd_rev)
  ultimately have "dropWhile is_space (rev s) = rev s" by (cases "rev s") simp_all
  then show ?thesis by (simp add: trim_def a)
qed

lemma trim_idem: "trim (trim s) = trim s"
  by (rule trim_fixed) (rule trim_ends)

lemma set_trim: "set (trim s) \<subseteq> set s"
proof -
  have "set (trim s) = set (dropWhile is_space (rev (dropWhile is_space s)))"
    by (simp add: trim_def)
  also have "\<dots> \<subseteq> set (rev (dropWhile is_space s))" by (rule set_dropWhileD[THEN subsetI])
  also have "\<dots> \<subseteq> set s" by (auto dest: set_dropWhileD)
  finally show ?thesis .
qed

lemma length_trim: "length (trim s) \<le> length s"
proof -
  have "length (trim s) = length (dropWhile is_space (rev (dropWhile is_space s)))"
    by (simp add: trim_def)
  also have "\<dots> \<le> length (rev (dropWhile is_space s))" by (rule length_dropWhile_le)
  also have "\<dots> \<le> length s" by (simp add: length_dropWhile_le)
  finally show ?thesis .
qed

lemma phone_char_plain: "phone_char c \<Longrightarrow> c \<noteq> CHR ''<'' \<and> c \<noteq> CHR ''>''"
  by (auto simp: phone_char_def is_digit_def is_space_def)

lemma validated_phone:
  assumes "validateBookingRequest b = Inr []"
  shows "\<exists>s. phone b = Some s \<and> ap_phone (applicant_of e b) = trim s"
proof -
  from assms obtain ids where ids: "slotIds b = Some ids"
    by (cases "slotIds b") (simp_all add: validateBookingRequest_def Let_def)
  from assms have ok: "\<not> ((case phone b of None \<Rightarrow> True | Some s \<Rightarrow> trim s = []) \<or> \<not> isValidPhone (phone b))"
    by (simp add: validateBookingRequest_def Let_def ids split: if_splits)
  then obtain s where s: "phone b = Some s" by (cases "phone b") simp_all
  from ok have v: "s \<noteq> []" "list_all phone_char s" "length s \<le> 20"
    by (simp_all add: s isValidPhone_def)
  have "\<forall>c\<in>set (trim s). c \<noteq> CHR ''<'' \<and> c \<noteq> CHR ''>''"
    using v(2) set_trim[of s] phone_char_plain by (auto simp: list_all_iff)
  then have f: "filter (\<lambda>c. c \<noteq> CHR ''<'' \<and> c \<noteq> CHR ''>'') (trim s) = trim s"
    by (simp add: filter_id_conv)
  have "length (trim s) \<le> 20" using length_trim[of s] v(3) by simp
  then show ?thesis
    using v(1) by (simp add: s applicant_of_def sanitizeInput_def f MAX_PHONE_LENGTH_def)
qed


lemma not_duplicate_blank: "\<not> is_duplicate p i []"
  by (simp add: is_duplicate_def cell_def)

lemma filter_trim_rows:
  assumes "\<not> P []"
  shows "filter P (trim_rows rs) = filter P rs"
proof -
  obtain k where k: "rs = trim_rows rs @ replicate k []" using trim_rows_decomp by blast
  have "filter P (replicate k []) = []" using assms by simp
  then have "filter P (trim_rows rs @ replicate k []) = filter P (trim_rows rs)" by simp
  with k show ?thesis by simp
qed

lemma active_count_rows:
  "filter (is_duplicate p i) (signup_rows st) =
   filter (is_duplicate p i) (map (cols 0 9) (drop 1 (Signups st)))"
  unfolding signup_rows_def by (rule filter_trim_rows) (rule not_duplicate_blank)

lemma read_signups_range: "read_range st signups_range = Some (signup_rows st)"
  by (simp add: read_range_def signups_range_def sheet_of_def signup_rows_def)

lemma cols_signup_row: "cols 0 9 (signup_row ap d l i) = signup_row ap d l i"
  by (simp add: cols_def trim_row_def signup_row_def)

lemma duplicate_new_row:
  "is_duplicate q j (signup_row ap d l i) \<longleftrightarrow> q = trim (ap_phone ap) \<and> j = i"
  by (auto simp: is_duplicate_def signup_row_def cell_def SIGNUPS_PHONE_def SIGNUPS_SLOT_ROW_ID_def
                 SIGNUPS_STATUS_def truthy_def String_of_def parseInt_def parseInt_String_int)

lemma count_distinct_key:
  "distinct (map f xs) \<Longrightarrow> length (filter (\<lambda>x. f x = j) xs) \<le> 1"
proof (induction xs)
  case Nil
  then show ?case by simp
next
  case (Cons x xs)
  show ?case
  proof (cases "f x = j")
    case True
    with Cons.prems have "\<forall>y\<in>set xs. f y \<noteq> j" by (auto simp: image_iff)
    then have "filter (\<lambda>x. f x = j) xs = []" by (simp add: filter_empty_conv)
    with True show ?thesis by simp
  next
    case False
    with Cons show ?thesis by simp
  qed
qed

lemma length_filter_drop: "length (filter P (drop m ys)) \<le> length (filter P ys)"
proof -
  have "length (filter P ys) = length (filter P (take m ys)) + length (filter P (drop m ys))"
    by (metis append_take_drop_id filter_append length_append)
  then show ?thesis by simp
qed

lemma length_filter_update:
  assumes "\<not> P y"
  shows "length (filter P (xs[j := y])) \<le> length (filter P xs)"
proof (cases "j < length xs")
  case False
  then have "length xs \<le> j" by arith
  then have "xs[j := y] = xs" by (rule list_update_beyond)
  then show ?thesis by simp
next
  case True
  have a: "xs[j := y] = take j xs @ y # drop (Suc j) xs"
    using True by (rule upd_conv_take_nth_drop)
  have b: "xs = take j xs @ xs ! j # drop (Suc j) xs"
    using True by (rule id_take_nth_drop)
  have "length (filter P (take j xs @ y # drop (Suc j) xs)) \<le>
        length (filter P (take j xs @ xs ! j # drop (Suc j) xs))"
    using assms by simp
  with a b show ?thesis by metis
qed


lemma passing_signup_row:
  assumes "\<not> slot_fails p existing x"
  shows "\<exists>d l. slot_signup ap x = signup_row ap d l (fst x)"
  using assms by (auto simp: slot_fails_def slot_signup_def split: option.splits)

lemma post_keeps_unique:
  assumes "no_double_booking (sheets s)" and "distinct (requested_ids (req_body req))"
  shows "no_double_booking (sheets (after (handle_post e req s)))"
proof (cases "status (resp (handle_post e req s)) = 200")
  case False
  then show ?thesis using assms(1) by (simp add: post_unchanged)
next
  case True
  let ?ap = "applicant_of e (req_body req)"
  let ?ids = "requested_ids (req_body req)"
  from post_200[OF True] obtain slotRanges existing signupRows updateRequests st where
    v: "validateBookingRequest (req_body req) = Inr []"
    and r2: "values_get (fail_get_signups e) (sheets s) signups_range = Some existing"
    and bs: "book_slots ?ap existing (zip ?ids slotRanges) [] [] = Inr (signupRows, updateRequests)"
    and w: "batchUpdate (fail_batchUpdate e) (sheets s)
              (booking_directives signupRows updateRequests) = Some st"
    and st: "sheets (after (handle_post e req s)) = st"
    by blast
  let ?xs = "zip ?ids slotRanges"
  have pass: "\<forall>x\<in>set ?xs. \<not> slot_fails (ap_phone ?ap) existing x"
  proof (rule ccontr)
    assume "\<not> ?thesis"
    then have "\<exists>x\<in>set ?xs. slot_fails (ap_phone ?ap) existing x" by blast
    from book_slots_rejects[OF this, of "[]" "[]"] bs show False by auto
  qed
  from book_slots_all_pass[OF pass, of "[]" "[]"] bs
  have rows: "signupRows = map (slot_signup ?ap) ?xs" by simp
  from r2 have ex: "existing = signup_rows (sheets s)"
    by (simp add: values_get_def read_signups_range split: if_splits)
  from validated_phone[OF v, of e] trim_idem
  have ph: "trim (ap_phone ?ap) = ap_phone ?ap" by auto
  have dk: "distinct (map fst ?xs)"
    using assms(2) by (simp add: map_fst_zip_take distinct_take)
  from booking_write[OF w] have sg: "Signups st = Signups (sheets s) @ signupRows" by simp
  let ?C = "cols 0 9"
  have "length (filter (is_duplicate q j) (signup_rows st)) \<le> 1" for q j
  proof -
    let ?P = "is_duplicate q j"
    let ?old = "length (filter ?P (signup_rows (sheets s)))"
    have new_eq: "filter ?P (map ?C signupRows) =
                  map (\<lambda>x. ?C (slot_signup ?ap x)) (filter (\<lambda>x. q = ap_phone ?ap \<and> fst x = j) ?xs)"
    proof -
      have "filter (\<lambda>x. ?P (?C (slot_signup ?ap x))) ?xs =
            filter (\<lambda>x. q = ap_phone ?ap \<and> fst x = j) ?xs"
      proof (rule filter_cong[OF refl])
        fix x assume "x \<in> set ?xs"
        with pass have "\<not> slot_fails (ap_phone ?ap) existing x" by blast
        from passing_signup_row[OF this, of ?ap] obtain d l where
          "slot_signup ?ap x = signup_row ?ap d l (fst x)" by blast
        then show "?P (?C (slot_signup ?ap x)) = (q = ap_phone ?ap \<and> fst x = j)"
          by (auto simp: cols_signup_row duplicate_new_row ph)
      qed
      then show ?thesis
        by (simp add: rows filter_map comp_def)
    qed
    have split: "length (filter ?P (signup_rows st)) \<le> ?old + length (filter ?P (map ?C signupRows))"
    proof -
      have "filter ?P (signup_rows st) =
            filter ?P (map ?C (drop 1 (Signups (sheets s)))) @
            filter ?P (drop (1 - length (Signups (sheets s))) (map ?C signupRows))"
        by (simp add: active_count_rows sg drop_map)
      then have "length (filter ?P (signup_rows st)) =
            ?old + length (filter ?P (drop (1 - length (Signups (sheets s))) (map ?C signupRows)))"
        by (simp add: active_count_rows)
      with length_filter_drop[of ?P "1 - length (Signups (sheets s))" "map ?C signupRows"]
      show ?thesis by simp
    qed
    show ?thesis
    proof (cases "q = ap_phone ?ap \<and> j \<in> fst ` set ?xs")
      case True
      then obtain x where x: "x \<in> set ?xs" "fst x = j" by auto
      with pass have "\<not> slot_fails (ap_phone ?ap) existing x" by blast
      then have "\<not> list_ex (is_duplicate (ap_phone ?ap) j) existing"
        by (auto simp: slot_fails_def x(2)[symmetric] split: option.splits)
      then have "filter ?P (signup_rows (sheets s)) = []"
        using True by (simp add: ex list_ex_iff filter_empty_conv)
      then have old0: "?old = 0" by simp
      have "filter (\<lambda>x. q = ap_phone ?ap \<and> fst x = j) ?xs = filter (\<lambda>x. fst x = j) ?xs"
        using True by simp
      then have "length (filter ?P (map ?C signupRows)) = length (filter (\<lambda>x. fst x = j) ?xs)"
        unfolding new_eq by simp
      also have "\<dots> \<le> 1" using dk by (rule count_distinct_key)
      finally show ?thesis using split old0 by simp
    next
      case False
      then have "filter (\<lambda>x. q = ap_phone ?ap \<and> fst x = j) ?xs = []"
        by (auto simp: filter_empty_conv)
      then have "length (filter ?P (map ?C signupRows)) = 0"
        unfolding new_eq by simp
      moreover have "?old \<le> 1" using assms(1) by (simp add: no_double_booking_def)
      ultimately show ?thesis using split by simp
    qed
  qed
  then show ?thesis by (simp add: no_double_booking_def st)
qed


lemma cell_text_nonempty: "text_of r c \<noteq> [] \<Longrightarrow> cell r c = Some (text_of r c)"
  by (simp add: cell_def text_of_def split: if_splits)

lemma not_duplicate_status:
  assumes "text_of r 9 = v" and "v \<noteq> []" and "\<not> startsWith v ''ACTIVE''"
  shows "\<not> is_duplicate p i (cols 0 9 r)"
proof -
  have "text_of (cols 0 9 r) 9 = v" using assms(1) by (simp add: text_of_cols0)
  with assms(2) have "cell (cols 0 9 r) 9 = Some v"
    using cell_text_nonempty[of "cols 0 9 r" 9] by simp
  with assms(2,3) show ?thesis
    by (simp add: is_duplicate_def SIGNUPS_STATUS_def truthy_def String_of_def)
qed

lemma cols_blank: "cols c0 c1 [] = []"
  by (simp add: cols_def trim_row_def)

lemma set_status_count:
  assumes "v \<noteq> []" and "\<not> startsWith v ''ACTIVE''"
  shows "length (filter (is_duplicate p i) (map (cols 0 9) (drop 1 (set_cell sh k 9 v)))) \<le>
         length (filter (is_duplicate p i) (map (cols 0 9) (drop 1 sh)))"
proof -
  let ?P = "is_duplicate p i" and ?C = "cols 0 9"
  let ?n = "Suc k - length sh"
  let ?ys = "sh @ replicate ?n []"
  let ?old = "?ys ! k"
  let ?row = "(?old @ replicate (Suc 9 - length ?old) [])[9 := v]"
  have sc: "set_cell sh k 9 v = ?ys[k := ?row]"
    by (simp add: set_cell_def Let_def)
  have ar: "(9::nat) < n + (10 - n)" for n by arith
  have "text_of ?row 9 = v" by (simp add: text_of_def ar)
  from not_duplicate_status[OF this assms] have np: "\<not> ?P (?C ?row)" .
  have blanks: "filter ?P (map ?C (drop m (replicate ?n []))) = []" for m
    by (simp add: filter_empty_conv cols_blank not_duplicate_blank)
  have ys: "filter ?P (map ?C (drop 1 ?ys)) = filter ?P (map ?C (drop 1 sh))"
    using blanks[of "1 - length sh"] by (simp add: drop_map)
  have "length (filter ?P (map ?C (drop 1 (?ys[k := ?row])))) \<le>
        length (filter ?P (map ?C (drop 1 ?ys)))"
  proof (cases "k < 1")
    case True
    then have "drop 1 (?ys[k := ?row]) = drop 1 ?ys" by (rule drop_update_cancel)
    then show ?thesis by simp
  next
    case False
    then have "1 \<le> k" by simp
    then have "drop 1 (?ys[k := ?row]) = (drop 1 ?ys)[k - 1 := ?row]" by (rule drop_update_swap)
    then have "map ?C (drop 1 (?ys[k := ?row])) = (map ?C (drop 1 ?ys))[k - 1 := ?C ?row]"
      by (simp add: map_update)
    with length_filter_update[of ?P "?C ?row" "map ?C (drop 1 ?ys)" "k - 1"] np show ?thesis by simp
  qed
  then show ?thesis unfolding sc ys .
qed

lemma patch_keeps_unique:
  assumes "no_double_booking (sheets s)"
  shows "no_double_booking (sheets (after (handle_patch e req s)))"
proof (cases "status (resp (handle_patch e req s)) = 200")
  case False
  then show ?thesis using assms by (simp add: patch_unchanged)
next
  case True
  from patch_200[OF True] have
    sg: "Signups (sheets (after (handle_patch e req s))) =
           set_cell (Signups (sheets s)) (nat (or_zero (signupRowId (req_body req)) - 1)) 9
             (''CANCELLED:'' @ isoNow e)"
    by auto
  have "length (filter (is_duplicate p i) (signup_rows (sheets (after (handle_patch e req s))))) \<le> 1"
    for p i
  proof -
    have "length (filter (is_duplicate p i) (signup_rows (sheets (after (handle_patch e req s))))) \<le>
          length (filter (is_duplicate p i) (signup_rows (sheets s)))"
      unfolding active_count_rows sg by (rule set_status_count) simp_all
    also have "\<dots> \<le> 1" using assms by (simp add: no_double_booking_def)
    finally show ?thesis .
  qed
  then show ?thesis by (simp add: no_double_booking_def)
qed

lemma handler_keeps_unique:
  assumes "no_double_booking (sheets s)"
    and "req_method req = POST \<longrightarrow> distinct (requested_ids (req_body req))"
  shows "no_double_booking (sheets (after (handler e req s)))"
proof -
  obtain ok m where c: "checkRateLimit (now e) (clientIP req) (rateLimitMap s) = (ok, m)"
    by (cases "checkRateLimit (now e) (clientIP req) (rateLimitMap s)")
  have s0: "no_double_booking (sheets (s\<lparr>rateLimitMap := m\<rparr>))" using assms(1) by simp
  show ?thesis
  proof (cases "req_method req")
    case POST
    with assms(2) have d: "distinct (requested_ids (req_body req))" by simp
    from post_keeps_unique[OF s0 d, of e] assms(1) show ?thesis
      by (simp add: handler_def c Let_def reply_def POST)
  next
    case PATCH
    from patch_keeps_unique[OF s0, of e req] assms(1) show ?thesis
      by (simp add: handler_def c Let_def reply_def PATCH)
  qed (use assms(1) in \<open>simp_all add: handler_def c Let_def reply_def lookup_unchanged listing_unchanged\<close>)
qed

lemma run_keeps_unique:
  assumes "no_double_booking (sheets s)"
    and "\<forall>a\<in>set rs. req_method (snd a) = POST \<longrightarrow> distinct (requested_ids (req_body (snd a)))"
  shows "no_double_booking (sheets (run rs s))"
  using assms
proof (induction rs arbitrary: s)
  case Nil
  then show ?case by simp
next
  case (Cons a rs)
  obtain e req where a: "a = (e, req)" by (cases a)
  from Cons.prems(2) have d: "req_method req = POST \<longrightarrow> distinct (requested_ids (req_body req))"
    and rest: "\<forall>a\<in>set rs. req_method (snd a) = POST \<longrightarrow> distinct (requested_ids (req_body (snd a)))"
    by (simp_all add: a)
  from Cons.IH[OF handler_keeps_unique[OF Cons.prems(1) d, of e] rest]
  show ?case by (simp add: a)
qed


text \<open>
  C2, as amended. For a validated booking that passed the throttle and whose reads
  succeeded: if the request contains a slot id for which an existing signup row has the
  same phone, the same slot row id and a status starting with \<open>ACTIVE\<close> (an empty status
  counting as \<open>ACTIVE\<close>), the request is rejected with status 400 or 409, the only store
  calls are the two reads and the sheets are as before; the answer is 409 with the message
  naming that slot when it is the first slot of the request to fail and its row is
  present. Along any sequence of requests whose bookings list no slot id twice, a store
  with at most one active signup per phone and slot keeps that property.
\<close>

theorem duplicate_booking_rejected:
  assumes "req_method req = POST"
    and "fst (checkRateLimit (now e) (clientIP req) (rateLimitMap s))"
    and "validateBookingRequest (req_body req) = Inr []"
    and "checkConcurrentBookings (ap_phone (applicant_of e (req_body req))) (activeBookingsMap s)"
    and "values_batchGet (fail_batchGet e) (sheets s)
           (map slot_row_range (requested_ids (req_body req))) = Some slotRanges"
    and "values_get (fail_get_signups e) (sheets s) signups_range = Some existing"
  shows "((\<exists>x\<in>set (zip (requested_ids (req_body req)) slotRanges).
             list_ex (is_duplicate (ap_phone (applicant_of e (req_body req))) (fst x)) existing) \<longrightarrow>
            (status (resp (handler e req s)) = 400 \<or> status (resp (handler e req s)) = 409) \<and>
            (\<exists>msg. json (resp (handler e req s)) = Error msg) \<and>
            calls (handler e req s) =
              [ValuesBatchGet (map slot_row_range (requested_ids (req_body req))),
               ValuesGet signups_range] \<and>
            sheets (after (handler e req s)) = sheets s) \<and>
         (\<forall>pre i vals post r.
            zip (requested_ids (req_body req)) slotRanges = pre @ (i, vals) # post \<and>
            (\<forall>y\<in>set pre. \<not> slot_fails (ap_phone (applicant_of e (req_body req))) existing y) \<and>
            first_row vals = Some r \<and>
            list_ex (is_duplicate (ap_phone (applicant_of e (req_body req))) i) existing \<longrightarrow>
            resp (handler e req s) =
              \<lparr>status = 409,
               json = Error (''Already booked '' @ String_of (cell r SLOTS_LABEL) @ '' on '' @
                             String_of (cell r SLOTS_DATE) @ ''.'')\<rparr>) \<and>
         (\<forall>rs s'.
            no_double_booking (sheets s') \<and>
            (\<forall>a\<in>set rs. req_method (snd a) = POST \<longrightarrow>
                         distinct (requested_ids (req_body (snd a)))) \<longrightarrow>
            no_double_booking (sheets (run rs s')))"
proof -
  let ?ap = "applicant_of e (req_body req)"
  let ?xs = "zip (requested_ids (req_body req)) slotRanges"
  let ?s0 = "s\<lparr>rateLimitMap := snd (checkRateLimit (now e) (clientIP req) (rateLimitMap s))\<rparr>"
  have h: "handler e req s = handle_post e req ?s0"
    by (rule handler_POST[OF assms(1,2)])
  have pre: "checkConcurrentBookings (ap_phone ?ap) (activeBookingsMap ?s0)"
      "values_batchGet (fail_batchGet e) (sheets ?s0)
           (map slot_row_range (requested_ids (req_body req))) = Some slotRanges"
      "values_get (fail_get_signups e) (sheets ?s0) signups_range = Some existing"
    using assms(4-6) by simp_all
  have rej: "handle_post e req ?s0 =
           \<lparr>resp = r,
            after = ?s0\<lparr>activeBookingsMap :=
                        incrementActiveBookings (ap_phone ?ap) (activeBookingsMap ?s0)\<rparr>,
            calls = [ValuesBatchGet (map slot_row_range (requested_ids (req_body req))),
                     ValuesGet signups_range]\<rparr>"
    if "book_slots ?ap existing ?xs [] [] = Inl r" for r
    by (rule post_rejected[OF assms(3) pre that])
  have a: "(status (resp (handler e req s)) = 400 \<or> status (resp (handler e req s)) = 409) \<and>
            (\<exists>msg. json (resp (handler e req s)) = Error msg) \<and>
            calls (handler e req s) =
              [ValuesBatchGet (map slot_row_range (requested_ids (req_body req))),
               ValuesGet signups_range] \<and>
            sheets (after (handler e req s)) = sheets s"
    if d: "\<exists>x\<in>set ?xs. list_ex (is_duplicate (ap_phone ?ap) (fst x)) existing"
  proof -
    from d have f: "\<exists>x\<in>set ?xs. slot_fails (ap_phone ?ap) existing x"
      by (auto simp: slot_fails_def split: option.splits)
    from book_slots_rejects[OF f, of "[]" "[]"] obtain r msg where
      r: "book_slots ?ap existing ?xs [] [] = Inl r" "status r = 400 \<or> status r = 409"
         "json r = Error msg" by blast
    show ?thesis
      unfolding h rej[OF r(1)] using r(2,3) by simp
  qed
  have b: "resp (handler e req s) =
              \<lparr>status = 409,
               json = Error (''Already booked '' @ String_of (cell r SLOTS_LABEL) @ '' on '' @
                             String_of (cell r SLOTS_DATE) @ ''.'')\<rparr>"
    if xs: "?xs = pre @ (i, vals) # post"
      and ok: "\<forall>y\<in>set pre. \<not> slot_fails (ap_phone ?ap) existing y"
      and r: "first_row vals = Some r"
      and dup: "list_ex (is_duplicate (ap_phone ?ap) i) existing"
    for pre i vals post r
  proof -
    have f: "slot_fails (ap_phone ?ap) existing (i, vals)"
      using r dup by (simp add: slot_fails_def)
    have "book_slots ?ap existing ?xs [] [] =
            book_slots ?ap existing ((i, vals) # post) ([] @ map (slot_signup ?ap) pre) ([] @ map slot_update pre)"
      unfolding xs by (rule book_slots_passing[OF ok])
    also note book_slots_failing_head[OF f]
    finally have "book_slots ?ap existing ?xs [] [] =
        Inl \<lparr>status = 409,
             json = Error (''Already booked '' @ String_of (cell r SLOTS_LABEL) @ '' on '' @
                             String_of (cell r SLOTS_DATE) @ ''.'')\<rparr>"
      using r dup by simp
    from rej[OF this] show ?thesis unfolding h by simp
  qed
  have c: "\<forall>rs s'.
            no_double_booking (sheets s') \<and>
            (\<forall>a\<in>set rs. req_method (snd a) = POST \<longrightarrow>
                         distinct (requested_ids (req_body (snd a)))) \<longrightarrow>
            no_double_booking (sheets (run rs s'))"
    using run_keeps_unique by blast
  from a b c show ?thesis by blast
qed

text \<open>
  C2 as stated fails on the code. A request that contains a slot with an active signup of
  the phone need not get the 409 duplicate error: the loop stops at the first failing slot
  of the request, here the blank slot row 4, with 400. And a request that lists one slot id
  twice appends two active signup rows for it, since the scan looks only at the rows
  read before the write.
\<close>

theorem duplicate_booking_counterexample:
  "list_ex (is_duplicate ''5551234567'' 3) (signup_rows (sheets ex_server)) \<and>
   resp (handler ex_env (ex_book ''5551234567'' (Some [IntegerNumber 4, IntegerNumber 3])) ex_server) =
     \<lparr>status = 400, json = Error ''Slot data missing.''\<rparr> \<and>
   length (filter (is_duplicate ''5550000000'' 5) (signup_rows (sheets ex_server))) = 0 \<and>
   status (resp (handler ex_env (ex_book ''5550000000'' (Some [IntegerNumber 5, IntegerNumber 5]))
                   ex_server)) = 200 \<and>
   length (filter (is_duplicate ''5550000000'' 5)
     (signup_rows (sheets (after (handler ex_env
        (ex_book ''5550000000'' (Some [IntegerNumber 5, IntegerNumber 5])) ex_server))))) = 2"
  by code_simp

lemma ex_no_double_booking: "no_double_booking (sheets ex_server)"
proof -
  let ?r2 = "[''t1'', ''2030-01-01'', ''10am'', ''Ann'', [], ''5551234567'', ''A'', [], ''3'', ''ACTIVE'']"
  let ?r3 = "[''t0'', ''2030-01-01'', ''9am'', ''Ann'', [], ''5551234567'', ''A'', [], ''2'', ''CANCELLED:t2'']"
  have rows: "signup_rows (sheets ex_server) = [?r2, ?r3]"
    by code_simp
  have "\<not> is_duplicate p i ?r3" for p i
    by (simp add: is_duplicate_def cell_def SIGNUPS_STATUS_def truthy_def String_of_def)
  then show ?thesis
    by (simp add: no_double_booking_def rows)
qed

theorem duplicate_booking_rejected_witness:
  "resp (handler ex_env (ex_book ''5551234567'' (Some [IntegerNumber 5, IntegerNumber 3])) ex_server) =
     \<lparr>status = 409, json = Error ''Already booked 10am on 2030-01-01.''\<rparr> \<and>
   calls (handler ex_env (ex_book ''5551234567'' (Some [IntegerNumber 5, IntegerNumber 3])) ex_server) =
     [ValuesBatchGet [OneRow SlotsSheet 5 0 3, OneRow SlotsSheet 3 0 3], ValuesGet (FromRow SignupsSheet 2 0 9)] \<and>
   sheets (after (handler ex_env (ex_book ''5551234567'' (Some [IntegerNumber 5, IntegerNumber 3])) ex_server)) =
     sheets ex_server \<and>
   no_double_booking (sheets (run [(ex_env, ex_book ''5551234567'' (Some [IntegerNumber 5, IntegerNumber 2])),
                                   (ex_env, ex_book ''5551234567'' (Some [IntegerNumber 5])),
                                   (ex_env, ex_cancel 2 3 ''5551234567''),
                                   (ex_env, ex_book ''5551234567'' (Some [IntegerNumber 3]))] ex_server))"
proof -
  let ?q = "ex_book ''5551234567'' (Some [IntegerNumber 5, IntegerNumber 3])"
  let ?r5 = "[''2030-01-02'', ''9am'', ''3'', ''1'']" and ?r3 = "[''2030-01-01'', ''10am'', ''2'', ''2'']"
  let ?ex = "[[''t1'', ''2030-01-01'', ''10am'', ''Ann'', [], ''5551234567'', ''A'', [], ''3'', ''ACTIVE''],
              [''t0'', ''2030-01-01'', ''9am'', ''Ann'', [], ''5551234567'', ''A'', [], ''2'', ''CANCELLED:t2'']]"
  let ?ap = "applicant_of ex_env (req_body ?q)"
  let ?rs = "[(ex_env, ex_book ''5551234567'' (Some [IntegerNumber 5, IntegerNumber 2])),
              (ex_env, ex_book ''5551234567'' (Some [IntegerNumber 5])),
              (ex_env, ex_cancel 2 3 ''5551234567''),
              (ex_env, ex_book ''5551234567'' (Some [IntegerNumber 3]))]"
  have m: "req_method ?q = POST"
    by (simp add: ex_book_def ex_request_def)
  have v: "validateBookingRequest (req_body ?q) = Inr []"
    by code_simp
  have t: "checkConcurrentBookings (ap_phone ?ap) (activeBookingsMap ex_server)"
    by code_simp
  have r1: "values_batchGet (fail_batchGet ex_env) (sheets ex_server)
              (map slot_row_range (requested_ids (req_body ?q))) = Some [[?r5], [?r3]]"
    by code_simp
  have r2: "values_get (fail_get_signups ex_env) (sheets ex_server) signups_range = Some ?ex"
    by code_simp
  have z: "zip (requested_ids (req_body ?q)) [[?r5], [?r3]] = [(5, [?r5])] @ (3, [?r3]) # []"
    by code_simp
  have c: "\<forall>y\<in>set [(5, [?r5])]. \<not> slot_fails (ap_phone ?ap) ?ex y"
      "first_row [?r3] = Some ?r3"
      "list_ex (is_duplicate (ap_phone ?ap) 3) ?ex"
    by code_simp+
  have f: "\<exists>x\<in>set (zip (requested_ids (req_body ?q)) [[?r5], [?r3]]).
             list_ex (is_duplicate (ap_phone ?ap) (fst x)) ?ex"
    by code_simp
  have bookedtext: "''Already booked '' @ String_of (cell ?r3 SLOTS_LABEL) @ '' on '' @
              String_of (cell ?r3 SLOTS_DATE) @ ''.'' = ''Already booked 10am on 2030-01-01.''"
    by code_simp
  have rg: "map slot_row_range (requested_ids (req_body ?q)) = [OneRow SlotsSheet 5 0 3, OneRow SlotsSheet 3 0 3]"
      "signups_range = FromRow SignupsSheet 2 0 9"
    by code_simp+
  have d: "\<forall>a\<in>set ?rs. req_method (snd a) = POST \<longrightarrow> distinct (requested_ids (req_body (snd a)))"
    by code_simp
  note th = duplicate_booking_rejected[OF m ex_allowed v t r1 r2]
  from th f have a: "calls (handler ex_env ?q ex_server) =
       [ValuesBatchGet (map slot_row_range (requested_ids (req_body ?q))), ValuesGet signups_range] \<and>
       sheets (after (handler ex_env ?q ex_server)) = sheets ex_server"
    by blast
  from th z c have b: "resp (handler ex_env ?q ex_server) =
       \<lparr>status = 409,
        json = Error (''Already booked '' @ String_of (cell ?r3 SLOTS_LABEL) @ '' on '' @
                      String_of (cell ?r3 SLOTS_DATE) @ ''.'')\<rparr>"
    by blast
  from th ex_no_double_booking d have u: "no_double_booking (sheets (run ?rs ex_server))"
    by blast
  from a b u show ?thesis
    unfolding bookedtext rg by simp
qed


section \<open>What a cancellation writes\<close>



end
